theory Spec2Isabelle
  imports Main "HOL-Library.Multiset"
begin

section \<open>Domain page counter: a model of app.py\<close>

text \<open>
  The program reads a list of domains, looks for each domain's sitemap at four fixed
  places, counts the url entries it finds (following a sitemap index into at most ten
  child sitemaps), falls back to a request for the homepage when the count is zero, and
  runs all of that for a batch of domains on a thread pool.

  Python strings are modelled as HOL strings, one \<open>char\<close> for each code point below 256.
  The libraries the program calls are not part of it and are modelled by what they are
  documented to do: \<open>str.strip\<close>, \<open>str.lower\<close>, \<open>str.rstrip\<close>, \<open>re.sub\<close> and
  \<open>str.startswith\<close> as list functions; \<open>urlparse\<close> as a parameter; an HTTP GET as a
  function from the URL and the timeout to either the exception raised or the response
  (during one run the same request gets the same answer); the XML parser by its outcome
  on the response body; the thread pool by the time at which each task finishes.
\<close>

subsection \<open>String operations of the Python library\<close>

definition isspace :: "char \<Rightarrow> bool" where
  \<comment> \<open>the code points below 256 that \<open>str.isspace\<close> accepts\<close>
  "isspace c =
     (let n = (of_char c :: nat)
      in (9 \<le> n \<and> n \<le> 13) \<or> (28 \<le> n \<and> n \<le> 32) \<or> n = 133 \<or> n = 160)"

definition strip :: "string \<Rightarrow> string" where
  \<comment> \<open>\<open>s.strip()\<close>\<close>
  "strip s = rev (dropWhile isspace (rev (dropWhile isspace s)))"

definition lower_char :: "char \<Rightarrow> char" where
  "lower_char c =
     (let n = (of_char c :: nat)
      in if (65 \<le> n \<and> n \<le> 90) \<or> (192 \<le> n \<and> n \<le> 214) \<or> (216 \<le> n \<and> n \<le> 222)
         then char_of (n + 32) else c)"

definition lower :: "string \<Rightarrow> string" where
  \<comment> \<open>\<open>s.lower()\<close>\<close>
  "lower s = map lower_char s"

definition startswith :: "string \<Rightarrow> string \<Rightarrow> bool" where
  \<comment> \<open>\<open>s.startswith(p)\<close>\<close>
  "startswith s p = (take (length p) s = p)"

definition sub_leading_www :: "string \<Rightarrow> string" where
  \<comment> \<open>\<open>re.sub(r'^www\.', '', s)\<close>: the pattern is anchored, so it matches at most once\<close>
  "sub_leading_www s = (if startswith s ''www.'' then drop 4 s else s)"

definition rstrip_slash :: "string \<Rightarrow> string" where
  \<comment> \<open>\<open>s.rstrip('/')\<close>\<close>
  "rstrip_slash s = rev (dropWhile (\<lambda>c. c = CHR ''/'') (rev s))"

definition digit_char :: "nat \<Rightarrow> char" where
  "digit_char d = char_of (48 + d)"

fun str_nat :: "nat \<Rightarrow> string" where
  \<comment> \<open>the decimal numeral an f-string prints for a non-negative \<open>int\<close>\<close>
  "str_nat n = (if n < 10 then [digit_char n] else str_nat (n div 10) @ [digit_char (n mod 10)])"

declare str_nat.simps [simp del]

definition isdigit :: "char \<Rightarrow> bool" where
  "isdigit c = (let n = (of_char c :: nat) in 48 \<le> n \<and> n \<le> 57)"

subsection \<open>Exceptions\<close>

datatype exn =
    RequestException string
  | TimeoutError string
  | ParseError string
  | ValueError string
  | OtherException string

fun str :: "exn \<Rightarrow> string" where
  "str (RequestException m) = m"
| "str (TimeoutError m) = m"
| "str (ParseError m) = m"
| "str (ValueError m) = m"
| "str (OtherException m) = m"

subsection \<open>The domain normaliser\<close>

text \<open>
  \<open>urlparse\<close> belongs to the standard library: \<open>clean_domain\<close> takes, as the parameter
  \<open>urlparse\<close>, the function that gives for a URL either the exception that
  \<open>urlparse(url)\<close> raises or the \<open>netloc\<close> of its result, and every general statement about
  \<open>clean_domain\<close> holds for every such function.

  \<open>urlparse_netloc\<close> is used for the examples. It follows \<open>urllib.parse.urlsplit\<close> on a
  string that starts with \<open>http://\<close> or \<open>https://\<close>: tabs, carriage returns and line feeds
  are removed, the \<open>netloc\<close> is the text between the two slashes and the next \<open>/\<close>, \<open>?\<close> or
  \<open>#\<close>, and a \<open>netloc\<close> with one of the two square brackets and not the other raises
  \<open>ValueError\<close>. What the library does with a \<open>netloc\<close> that has both brackets depends on
  its version; no example has one.
\<close>

definition urlparse_netloc :: "string \<Rightarrow> exn + string" where
  "urlparse_netloc url =
     (let cleaned = filter (\<lambda>c. of_char c \<noteq> (9::nat) \<and> of_char c \<noteq> (10::nat) \<and>
                                 of_char c \<noteq> (13::nat)) url;
          rest = drop (if startswith cleaned ''https://'' then 8 else 7) cleaned;
          netloc = takeWhile (\<lambda>c. c \<noteq> CHR ''/'' \<and> c \<noteq> CHR ''?'' \<and> c \<noteq> CHR ''#'') rest
      in if list_ex (\<lambda>c. c = CHR ''['') netloc = list_ex (\<lambda>c. c = CHR '']'') netloc
         then Inr netloc
         else Inl (ValueError ''Invalid IPv6 URL''))"

definition clean_domain ::
  "(string \<Rightarrow> exn + string) \<Rightarrow> string option \<Rightarrow> exn + string option" where
  \<comment> \<open>app.py, lines 20 to 38; the argument is a Python string or \<open>None\<close>. \<open>Inl e\<close>: the
      exception \<open>e\<close> of \<open>urlparse\<close> leaves the function, which has no handler.\<close>
  "clean_domain urlparse url_or_domain =
     (case url_or_domain of
        None \<Rightarrow> Inr None
      | Some raw \<Rightarrow>
          if raw = [] then Inr None
          else
            let s = strip raw
            in case (if startswith s ''http://'' \<or> startswith s ''https://''
                     then urlparse s else Inr s) of
                 Inl e \<Rightarrow> Inl e
               | Inr domain \<Rightarrow>
                   let domain = sub_leading_www (lower domain);
                       domain = rstrip_slash domain
                   in if domain = [] then Inr None else Inr (Some domain))"

definition unique :: "'a list \<Rightarrow> 'a list" where
  \<comment> \<open>\<open>list(dict.fromkeys(xs))\<close>: the first occurrence of each element, in order\<close>
  "unique xs = rev (remdups (rev xs))"

fun clean_lines :: "(string \<Rightarrow> exn + string) \<Rightarrow> string list \<Rightarrow> exn + string option list" where
  \<comment> \<open>\<open>[clean_domain(line) for line in lines]\<close>: the first exception ends the comprehension\<close>
  "clean_lines urlparse [] = Inr []"
| "clean_lines urlparse (line # lines) =
     (case clean_domain urlparse (Some line) of
        Inl e \<Rightarrow> Inl e
      | Inr d \<Rightarrow>
          (case clean_lines urlparse lines of
             Inl e \<Rightarrow> Inl e
           | Inr ds \<Rightarrow> Inr (d # ds)))"

definition unique_domains :: "(string \<Rightarrow> exn + string) \<Rightarrow> string list \<Rightarrow> exn + string list" where
  \<comment> \<open>lines 186 to 189, from the lines of the input to the domains of the batch\<close>
  "unique_domains urlparse input_lines =
     (let lines = filter (\<lambda>line. line \<noteq> []) (map strip input_lines)
      in case clean_lines urlparse lines of
           Inl e \<Rightarrow> Inl e
         | Inr domains \<Rightarrow>
             Inr (unique (concat (map (\<lambda>d. case d of None \<Rightarrow> [] | Some x \<Rightarrow> [x]) domains))))"

subsection \<open>Responses and XML documents\<close>

datatype element = Element (tag: string) (elem_text: "string option") (children: "element list")

fun iter_below :: "element \<Rightarrow> element list" where
  \<comment> \<open>the elements below the given one, at every depth, in document order\<close>
  "iter_below (Element t x cs) = concat (map (\<lambda>c. c # iter_below c) cs)"

definition findall :: "element \<Rightarrow> string \<Rightarrow> element list" where
  \<comment> \<open>\<open>root.findall('.//' + tag)\<close>\<close>
  "findall root tg = filter (\<lambda>e. tag e = tg) (iter_below root)"

definition find_child :: "element \<Rightarrow> string \<Rightarrow> element option" where
  \<comment> \<open>\<open>elem.find(tag)\<close>: the first direct child with that tag, if any\<close>
  "find_child e tg = List.find (\<lambda>c. tag c = tg) (children e)"

definition sitemap_tag :: string where
  "sitemap_tag = ''{http://www.sitemaps.org/schemas/sitemap/0.9}sitemap''"

definition loc_tag :: string where
  "loc_tag = ''{http://www.sitemaps.org/schemas/sitemap/0.9}loc''"

definition url_tag :: string where
  "url_tag = ''{http://www.sitemaps.org/schemas/sitemap/0.9}url''"

text \<open>
  A response carries its status code and its body. The body is represented by what
  \<open>ElementTree.fromstring\<close> makes of it: \<open>Inr root\<close> when it parses, \<open>Inl e\<close> when the
  parser raises \<open>e\<close> (\<open>ParseError\<close> for malformed XML).
\<close>

record response =
  status_code :: nat
  content :: "exn + element"

type_synonym network = "string \<Rightarrow> nat \<Rightarrow> exn + response"

type_synonym request_log = "(string \<times> nat) list"

subsection \<open>One domain: \<open>get_page_count\<close>\<close>

text \<open>
  The function keeps two locals, \<open>total_pages\<close> and \<open>method\<close>, and sends requests
  through one session. The model passes the locals along and returns, beside the value
  or the exception of the Python function, the list of requests sent (URL and timeout,
  oldest first), so that what was and was not requested can be stated.
\<close>

definition sitemap_urls :: "string \<Rightarrow> string list" where
  \<comment> \<open>lines 46 to 51\<close>
  "sitemap_urls domain =
     [''https://'' @ domain @ ''/sitemap.xml'',
      ''https://www.'' @ domain @ ''/sitemap.xml'',
      ''https://'' @ domain @ ''/sitemap_index.xml'',
      ''https://www.'' @ domain @ ''/sitemap_index.xml'']"

fun caught_by_loop :: "exn \<Rightarrow> bool" where
  \<comment> \<open>\<open>except (requests.RequestException, TimeoutError)\<close>, line 105\<close>
  "caught_by_loop (RequestException m) = True"
| "caught_by_loop (TimeoutError m) = True"
| "caught_by_loop e = False"

fun caught_by_parse :: "exn \<Rightarrow> bool" where
  \<comment> \<open>\<open>except ElementTree.ParseError\<close>, line 102\<close>
  "caught_by_parse (ParseError m) = True"
| "caught_by_parse e = False"

definition individual_sitemaps_of :: "element list \<Rightarrow> string option list" where
  \<comment> \<open>lines 76 to 80: the text of the \<open>loc\<close> child of each sitemap element that has one;
      the text of an empty element is \<open>None\<close>\<close>
  "individual_sitemaps_of sitemap_elements =
     concat (map (\<lambda>sitemap. case find_child sitemap loc_tag of
                               None \<Rightarrow> []
                             | Some loc \<Rightarrow> [elem_text loc]) sitemap_elements)"

fun count_individual_sitemaps ::
  "network \<Rightarrow> nat \<Rightarrow> string option list \<Rightarrow> int \<Rightarrow> request_log \<Rightarrow> int \<times> request_log" where
  \<comment> \<open>the body of the loop of lines 83 to 91, over the sitemaps it is given. Every
      exception is caught and the next sitemap is tried. A \<open>loc\<close> without text makes
      \<open>session.get(None)\<close> raise before anything is sent.\<close>
  "count_individual_sitemaps net t [] total_pages log = (total_pages, log)"
| "count_individual_sitemaps net t (None # rest) total_pages log =
     count_individual_sitemaps net t rest total_pages log"
| "count_individual_sitemaps net t (Some individual_sitemap # rest) total_pages log =
     (case net individual_sitemap t of
        Inl e \<Rightarrow> count_individual_sitemaps net t rest total_pages (log @ [(individual_sitemap, t)])
      | Inr sub_response \<Rightarrow>
          if status_code sub_response = 200 then
            (case content sub_response of
               Inl e \<Rightarrow>
                 count_individual_sitemaps net t rest total_pages (log @ [(individual_sitemap, t)])
             | Inr sub_root \<Rightarrow>
                 count_individual_sitemaps net t rest
                   (total_pages + int (length (findall sub_root url_tag)))
                   (log @ [(individual_sitemap, t)]))
          else count_individual_sitemaps net t rest total_pages (log @ [(individual_sitemap, t)]))"

definition read_sitemap ::
  "network \<Rightarrow> nat \<Rightarrow> element \<Rightarrow> int \<Rightarrow> request_log \<Rightarrow> (int \<times> string) \<times> request_log" where
  \<comment> \<open>lines 72 to 100: what is done with a parsed document, up to the \<open>break\<close>\<close>
  "read_sitemap net t root total_pages log =
     (let sitemap_elements = findall root sitemap_tag
      in if sitemap_elements \<noteq> [] then
           let individual_sitemaps = individual_sitemaps_of sitemap_elements;
               (total, log') =
                 count_individual_sitemaps net t (take 10 individual_sitemaps) total_pages log
           in ((total, ''Sitemap index ('' @ str_nat (length individual_sitemaps) @ '' sitemaps)''),
               log')
         else ((int (length (findall root url_tag)), ''Single sitemap''), log))"

fun try_sitemap_urls ::
  "network \<Rightarrow> nat \<Rightarrow> string list \<Rightarrow> int \<Rightarrow> string \<Rightarrow> request_log
     \<Rightarrow> (exn + int \<times> string) \<times> request_log" where
  \<comment> \<open>the loop of lines 63 to 106. \<open>Inl e\<close>: the exception \<open>e\<close> leaves the function.\<close>
  "try_sitemap_urls net t [] total_pages method log = (Inr (total_pages, method), log)"
| "try_sitemap_urls net t (sitemap_url # rest) total_pages method log =
     (case net sitemap_url t of
        Inl e \<Rightarrow>
          if caught_by_loop e
          then try_sitemap_urls net t rest total_pages method (log @ [(sitemap_url, t)])
          else (Inl e, log @ [(sitemap_url, t)])
      | Inr response \<Rightarrow>
          if status_code response = 200 then
            (case content response of
               Inl e \<Rightarrow>
                 if caught_by_parse e \<or> caught_by_loop e
                 then try_sitemap_urls net t rest total_pages method (log @ [(sitemap_url, t)])
                 else (Inl e, log @ [(sitemap_url, t)])
             | Inr root \<Rightarrow>
                 (case read_sitemap net t root total_pages (log @ [(sitemap_url, t)]) of
                    (found, log') \<Rightarrow> (Inr found, log')))
          else try_sitemap_urls net t rest total_pages method (log @ [(sitemap_url, t)]))"

definition homepage_check ::
  "network \<Rightarrow> string \<Rightarrow> int \<Rightarrow> string \<Rightarrow> request_log \<Rightarrow> (int \<times> string) \<times> request_log" where
  \<comment> \<open>lines 108 to 116\<close>
  "homepage_check net domain total_pages method log =
     (if total_pages = 0 then
        (case net (''https://'' @ domain) 5 of
           Inl e \<Rightarrow> ((total_pages, ''Domain inaccessible''), log @ [(''https://'' @ domain, 5)])
         | Inr response \<Rightarrow>
             if status_code response = 200
             then ((1, ''Homepage only (estimate)''), log @ [(''https://'' @ domain, 5)])
             else ((total_pages, method), log @ [(''https://'' @ domain, 5)]))
      else ((total_pages, method), log))"

definition get_page_count ::
  "network \<Rightarrow> string option \<Rightarrow> nat \<Rightarrow> (exn + int \<times> string) \<times> request_log" where
  \<comment> \<open>lines 40 to 118; the domain is a Python string or \<open>None\<close>\<close>
  "get_page_count net domain timeout_seconds =
     (case domain of
        None \<Rightarrow> (Inr (0, ''Invalid domain''), [])
      | Some d \<Rightarrow>
          if d = [] then (Inr (0, ''Invalid domain''), [])
          else
            (case try_sitemap_urls net timeout_seconds (sitemap_urls d) 0 ''No sitemap found'' [] of
               (Inl e, log) \<Rightarrow> (Inl e, log)
             | (Inr (total_pages, method), log) \<Rightarrow>
                 (case homepage_check net d total_pages method log of
                    (found, log') \<Rightarrow> (Inr found, log'))))"

subsection \<open>The batch: \<open>process_domains_batch\<close>\<close>

text \<open>
  Each domain is submitted to the pool as one task, \<open>get_page_count(domain, 20)\<close>. What the
  pool adds to the task is time: the model is given, for the task at each position of the
  list, the second at which it finishes, counted from the call of \<open>as_completed\<close>.

  \<open>as_completed(fs, timeout)\<close> hands out the futures as they finish; when the timeout has
  passed and futures are still unfinished, its iterator raises \<open>TimeoutError\<close>. Futures
  that finish in the same second are handed out in the order of submission.
  \<open>future.result(timeout)\<close> returns the task's value or raises the task's exception when
  the task finishes within \<open>timeout\<close> seconds of the call, and raises \<open>TimeoutError\<close>
  otherwise. The progress callback is called after each record and returns nothing.
\<close>

record future =
  fut_domain :: "string option"
  finished_at :: nat
  outcome :: "exn + int \<times> string"

record result =
  Domain :: "string option"
  Pages :: int
  Method :: string

definition submit_all :: "network \<Rightarrow> (nat \<Rightarrow> nat) \<Rightarrow> string option list \<Rightarrow> future list" where
  \<comment> \<open>lines 126 to 129\<close>
  "submit_all net finish domains =
     map (\<lambda>(i, domain). \<lparr>fut_domain = domain, finished_at = finish i,
                          outcome = fst (get_page_count net domain 20)\<rparr>)
       (enumerate 0 domains)"

definition as_completed :: "future list \<Rightarrow> nat \<Rightarrow> future list \<times> bool" where
  \<comment> \<open>the futures handed out, in order, and whether the iterator then raises\<close>
  "as_completed fs timeout =
     (filter (\<lambda>f. finished_at f \<le> timeout) (sort_key finished_at fs),
      list_ex (\<lambda>f. timeout < finished_at f) fs)"

definition future_result :: "future \<Rightarrow> nat \<Rightarrow> nat \<Rightarrow> exn + int \<times> string" where
  \<comment> \<open>\<open>future.result(timeout)\<close> called at the second \<open>now\<close>\<close>
  "future_result f now timeout =
     (if finished_at f \<le> now + timeout then outcome f else Inl (TimeoutError []))"

definition record_result :: "future \<Rightarrow> nat \<Rightarrow> result" where
  \<comment> \<open>lines 133 to 152, the body of the loop\<close>
  "record_result f now =
     (case future_result f now 25 of
        Inr (pages, method) \<Rightarrow> \<lparr>Domain = fut_domain f, Pages = pages, Method = method\<rparr>
      | Inl (TimeoutError m) \<Rightarrow> \<lparr>Domain = fut_domain f, Pages = 0, Method = ''Timeout''\<rparr>
      | Inl e \<Rightarrow> \<lparr>Domain = fut_domain f, Pages = 0, Method = ''Error: '' @ take 50 (str e)\<rparr>)"

fun collect :: "future list \<Rightarrow> nat \<Rightarrow> result list \<Rightarrow> result list" where
  \<comment> \<open>the loop of line 132 over the futures handed out; a future is handed out no earlier
      than it finishes and no earlier than the one before it\<close>
  "collect [] now results = results"
| "collect (f # fs) now results =
     (let now' = max now (finished_at f)
      in collect fs now' (results @ [record_result f now']))"

definition process_domains_batch ::
  "network \<Rightarrow> (nat \<Rightarrow> nat) \<Rightarrow> string option list \<Rightarrow> exn + result list" where
  \<comment> \<open>lines 120 to 158. The exception of \<open>as_completed\<close> is raised inside the \<open>for\<close>
      statement, where no handler encloses it.\<close>
  "process_domains_batch net finish domains =
     (case as_completed (submit_all net finish domains) 300 of
        (handed_out, raises) \<Rightarrow>
          let results = collect handed_out 0 []
          in if raises then Inl (TimeoutError []) else Inr results)"

subsection \<open>Notions used to state the properties\<close>

definition trimmed_from :: "string \<Rightarrow> string \<Rightarrow> bool" where
  \<comment> \<open>\<open>s\<close> is \<open>line\<close> without the white space at its two ends: \<open>line\<close> is white space, then
      \<open>s\<close>, then white space, and \<open>s\<close> neither starts nor ends with white space\<close>
  "trimmed_from line s =
     ((s = [] \<or> (\<not> isspace (hd s) \<and> \<not> isspace (last s))) \<and>
      list_ex (\<lambda>i. list_all isspace (take i line) \<and> take (length s) (drop i line) = s \<and>
                    list_all isspace (drop (i + length s) line))
        [0 ..< Suc (length line)])"

definition has_http_scheme :: "string \<Rightarrow> bool" where
  \<comment> \<open>the string starts with \<open>http://\<close> or \<open>https://\<close>, in lower case\<close>
  "has_http_scheme s = (take 7 s = ''http://'' \<or> take 8 s = ''https://'')"

definition www_removed :: "string \<Rightarrow> string \<Rightarrow> bool" where
  \<comment> \<open>\<open>w\<close> is \<open>l\<close> without one leading \<open>www.\<close>, if it has one\<close>
  "www_removed l w = (if take 4 l = ''www.'' then l = ''www.'' @ w else w = l)"

definition slashes_removed :: "string \<Rightarrow> string \<Rightarrow> bool" where
  \<comment> \<open>\<open>w\<close> is \<open>d\<close> followed by slashes only, and \<open>d\<close> does not end with a slash\<close>
  "slashes_removed w d =
     (take (length d) w = d \<and> list_all (\<lambda>c. c = CHR ''/'') (drop (length d) w) \<and>
      (d = [] \<or> last d \<noteq> CHR ''/''))"

definition is_index_label :: "string \<Rightarrow> bool" where
  \<comment> \<open>\<open>Sitemap index (N sitemaps)\<close> for a decimal numeral \<open>N\<close>\<close>
  "is_index_label m =
     (26 \<le> length m \<and> take 15 m = ''Sitemap index ('' \<and>
      drop (length m - 10) m = '' sitemaps)'' \<and>
      list_all isdigit (take (length m - 25) (drop 15 m)))"

definition documented_method :: "string \<Rightarrow> bool" where
  \<comment> \<open>the closed set of method labels of the specification\<close>
  "documented_method m =
     (m = ''Single sitemap'' \<or> is_index_label m \<or> m = ''Homepage only (estimate)'' \<or>
      m = ''Domain inaccessible'' \<or> m = ''Timeout'' \<or> startswith m ''Error: '')"

definition returned_method :: "string \<Rightarrow> bool" where
  \<comment> \<open>the documented labels and the two further labels of \<open>get_page_count\<close>\<close>
  "returned_method m =
     (documented_method m \<or> m = ''No sitemap found'' \<or> m = ''Invalid domain'')"

definition candidate_fails :: "network \<Rightarrow> nat \<Rightarrow> string \<Rightarrow> bool" where
  \<comment> \<open>the request raises for a network failure or a timeout, or is answered with a status
      other than 200, or with status 200 and a body that is malformed XML\<close>
  "candidate_fails net t u =
     (case net u t of
        Inl (RequestException m) \<Rightarrow> True
      | Inl (TimeoutError m) \<Rightarrow> True
      | Inl e \<Rightarrow> False
      | Inr r \<Rightarrow>
          if status_code r = 200
          then (case content r of
                  Inl (ParseError m) \<Rightarrow> True
                | Inl e \<Rightarrow> False
                | Inr root \<Rightarrow> False)
          else True)"

definition candidate_parses :: "network \<Rightarrow> nat \<Rightarrow> string \<Rightarrow> element \<Rightarrow> bool" where
  \<comment> \<open>the request is answered with status 200 and a body that parses to \<open>root\<close>\<close>
  "candidate_parses net t u root =
     (case net u t of
        Inl e \<Rightarrow> False
      | Inr r \<Rightarrow> status_code r = 200 \<and> content r = Inr root)"

definition child_urls :: "network \<Rightarrow> nat \<Rightarrow> string option \<Rightarrow> int" where
  \<comment> \<open>the number of url elements of a child sitemap that is fetched and parsed, 0 for a
      child that fails\<close>
  "child_urls net t loc =
     (case loc of
        None \<Rightarrow> 0
      | Some u \<Rightarrow>
          (case net u t of
             Inl e \<Rightarrow> 0
           | Inr r \<Rightarrow> if status_code r = 200
                      then (case content r of
                              Inl e \<Rightarrow> 0
                            | Inr sub_root \<Rightarrow> int (length (findall sub_root url_tag)))
                      else 0))"

definition child_succeeds :: "network \<Rightarrow> nat \<Rightarrow> string option \<Rightarrow> bool" where
  \<comment> \<open>the child sitemap is fetched with status 200 and its body parses\<close>
  "child_succeeds net t loc =
     (case loc of
        None \<Rightarrow> False
      | Some u \<Rightarrow>
          (case net u t of
             Inl e \<Rightarrow> False
           | Inr r \<Rightarrow> status_code r = 200 \<and> (case content r of Inl e \<Rightarrow> False | Inr x \<Rightarrow> True)))"

definition requests_for :: "nat \<Rightarrow> string option list \<Rightarrow> request_log" where
  \<comment> \<open>one request, with timeout \<open>t\<close>, for each location that has a text\<close>
  "requests_for t locs =
     concat (map (\<lambda>loc. case loc of None \<Rightarrow> [] | Some u \<Rightarrow> [(u, t)]) locs)"

subsection \<open>Servers and documents for the examples\<close>

definition ok :: "element \<Rightarrow> response" where
  "ok root = \<lparr>status_code = 200, content = Inr root\<rparr>"

definition not_found :: response where
  "not_found = \<lparr>status_code = 404, content = Inl (ParseError ''syntax error'')\<rparr>"

definition serve :: "(string \<times> response) list \<Rightarrow> network" where
  \<comment> \<open>a server that answers the listed URLs; a request for any other URL fails to connect\<close>
  "serve pages u t =
     (case map_of pages u of
        None \<Rightarrow> Inl (RequestException ''connection refused'')
      | Some r \<Rightarrow> Inr r)"

definition answers :: "(string \<times> (exn + response)) list \<Rightarrow> network" where
  \<comment> \<open>a server with a listed outcome, an exception or a response, for each listed URL; a
      request for any other URL fails to connect\<close>
  "answers outcomes u t =
     (case map_of outcomes u of
        None \<Rightarrow> Inl (RequestException ''connection refused'')
      | Some a \<Rightarrow> a)"

definition urlset :: "nat \<Rightarrow> element" where
  \<comment> \<open>a leaf sitemap with \<open>n\<close> url entries\<close>
  "urlset n =
     Element ''{http://www.sitemaps.org/schemas/sitemap/0.9}urlset'' None
       (replicate n (Element url_tag None
          [Element loc_tag (Some ''https://a.com/page'') []]))"

definition sitemapindex :: "string option list \<Rightarrow> element" where
  \<comment> \<open>a sitemap index with one sitemap entry for each given \<open>loc\<close> text\<close>
  "sitemapindex locs =
     Element ''{http://www.sitemaps.org/schemas/sitemap/0.9}sitemapindex'' None
       (map (\<lambda>l. Element sitemap_tag None [Element loc_tag l []]) locs)"

definition page :: response where
  \<comment> \<open>an HTML page: status 200, and a body that is not XML\<close>
  "page = \<lparr>status_code = 200, content = Inl (ParseError ''not well-formed'')\<rparr>"

definition all_not_found :: network where
  \<comment> \<open>\<open>a.com\<close> answers 404 at the four sitemap places and at the homepage\<close>
  "all_not_found =
     serve [(''https://a.com/sitemap.xml'', not_found),
            (''https://www.a.com/sitemap.xml'', not_found),
            (''https://a.com/sitemap_index.xml'', not_found),
            (''https://www.a.com/sitemap_index.xml'', not_found),
            (''https://a.com'', not_found)]"

definition homepage_only :: network where
  \<comment> \<open>\<open>a.com\<close> has a homepage and no sitemap\<close>
  "homepage_only =
     serve [(''https://a.com/sitemap.xml'', not_found),
            (''https://www.a.com/sitemap.xml'', not_found),
            (''https://a.com/sitemap_index.xml'', not_found),
            (''https://www.a.com/sitemap_index.xml'', not_found),
            (''https://a.com'', page)]"

definition empty_leaf_no_homepage :: network where
  \<comment> \<open>\<open>a.com\<close> has a sitemap without entries, and its homepage answers 404\<close>
  "empty_leaf_no_homepage =
     serve [(''https://a.com/sitemap.xml'', ok (urlset 0)), (''https://a.com'', not_found)]"

definition empty_leaf_with_homepage :: network where
  "empty_leaf_with_homepage =
     serve [(''https://a.com/sitemap.xml'', ok (urlset 0)), (''https://a.com'', page)]"

definition www_site :: network where
  \<comment> \<open>only the second sitemap place of \<open>a.com\<close> answers, with three entries\<close>
  "www_site = serve [(''https://www.a.com/sitemap.xml'', ok (urlset 3))]"

definition two_sites :: network where
  "two_sites =
     serve [(''https://a.com/sitemap.xml'', ok (urlset 3)),
            (''https://b.org/sitemap.xml'', ok (urlset 2))]"



definition faulty_site :: network where
  \<comment> \<open>the first request for \<open>a.com\<close> raises an exception that is neither a
      \<open>RequestException\<close> nor a \<open>TimeoutError\<close>, with a message of 70 characters\<close>
  "faulty_site =
     answers [(''https://a.com/sitemap.xml'',
               Inl (OtherException
                 ''0123456789012345678901234567890123456789012345678901234567890123456789''))]"

definition twelve_locs :: "string option list" where
  "twelve_locs =
     map (\<lambda>i. Some (''https://a.com/s'' @ str_nat i @ ''.xml'')) [1 ..< 13]"

definition twelve_children :: network where
  \<comment> \<open>of the twelve child sitemaps the first, the third, the eleventh and the twelfth
      are served\<close>
  "twelve_children =
     serve [(''https://a.com/s1.xml'', ok (urlset 10)),
            (''https://a.com/s3.xml'', ok (urlset 5)),
            (''https://a.com/s11.xml'', ok (urlset 7)),
            (''https://a.com/s12.xml'', ok (urlset 7))]"

definition one_empty_child :: network where
  "one_empty_child = serve [(''https://a.com/s1.xml'', ok (urlset 0))]"

definition index_without_loc :: element where
  \<comment> \<open>a sitemap index whose only sitemap entry has no \<open>loc\<close>\<close>
  "index_without_loc =
     Element ''{http://www.sitemaps.org/schemas/sitemap/0.9}sitemapindex'' None
       [Element sitemap_tag None []]"

definition prompt :: "nat \<Rightarrow> nat" where
  \<comment> \<open>every task finishes after one second\<close>
  "prompt i = 1"

definition second_first :: "nat \<Rightarrow> nat" where
  \<comment> \<open>the first task finishes after five seconds, the others after two\<close>
  "second_first i = (if i = 0 then 5 else 2)"

definition second_late :: "nat \<Rightarrow> nat" where
  \<comment> \<open>the first task finishes after one second, the others after 301\<close>
  "second_late i = (if i = 0 then 1 else 301)"

definition half_minute :: "nat \<Rightarrow> nat" where
  \<comment> \<open>every task finishes after 30 seconds\<close>
  "half_minute i = 30"

section \<open>Properties\<close>

subsection \<open>Facts about the steps of the normaliser\<close>

lemma rev_drop_take_while:
  "xs = rev (dropWhile P (rev xs)) @ rev (takeWhile P (rev xs))"
  by (metis rev_append rev_rev_ident takeWhile_dropWhile_id)

lemma strip_decompose:
  "\<exists>a b. line = a @ strip line @ b \<and> list_all isspace a \<and> list_all isspace b"
proof -
  let ?a = "takeWhile isspace line"
  let ?rest = "dropWhile isspace line"
  let ?b = "rev (takeWhile isspace (rev ?rest))"
  have rest: "?rest = strip line @ ?b"
    unfolding strip_def by (rule rev_drop_take_while)
  have "line = ?a @ ?rest"
    by simp
  with rest have "line = ?a @ strip line @ ?b"
    by simp
  moreover have "list_all isspace ?a"
    by (auto simp add: list_all_iff dest: set_takeWhileD)
  moreover have "list_all isspace ?b"
    by (auto simp add: list_all_iff dest: set_takeWhileD)
  ultimately show ?thesis by blast
qed

lemma strip_ends:
  assumes "strip line \<noteq> []"
  shows "\<not> isspace (hd (strip line)) \<and> \<not> isspace (last (strip line))"
proof -
  let ?rest = "dropWhile isspace line"
  let ?r = "dropWhile isspace (rev ?rest)"
  from assms have r: "?r \<noteq> []"
    by (simp add: strip_def)
  then have h: "\<not> isspace (hd ?r)"
    by (rule hd_dropWhile)
  from r have "last (strip line) = hd ?r"
    by (simp add: strip_def last_rev)
  with h have l: "\<not> isspace (last (strip line))"
    by simp
  from r have "rev ?rest \<noteq> []"
    by (metis dropWhile.simps(1))
  then have nr: "?rest \<noteq> []"
    by simp
  then have hr: "\<not> isspace (hd ?rest)"
    by (rule hd_dropWhile)
  have "?rest = strip line @ rev (takeWhile isspace (rev ?rest))"
    unfolding strip_def by (rule rev_drop_take_while)
  with assms have "hd ?rest = hd (strip line)"
    by (metis hd_append2)
  with hr l show ?thesis by simp
qed

lemma strip_sandwich:
  assumes "list_all isspace a" and "list_all isspace b"
    and "s = [] \<or> (\<not> isspace (hd s) \<and> \<not> isspace (last s))"
  shows "strip (a @ s @ b) = s"
proof (cases "s = []")
  case True
  with assms(1,2) have "\<forall>x \<in> set (a @ s @ b). isspace x"
    by (auto simp add: list_all_iff)
  then have e: "dropWhile isspace (a @ s @ b) = []"
    by (simp only: dropWhile_eq_Nil_conv)
  have "strip (a @ s @ b) = []"
    unfolding strip_def e by simp
  with True show ?thesis by simp
next
  case False
  with assms(3) have h: "\<not> isspace (hd s)" and l: "\<not> isspace (last s)"
    by simp_all
  from False obtain x xs where s: "s = x # xs"
    by (cases s) auto
  with h have "dropWhile isspace (s @ b) = s @ b"
    by simp
  with assms(1) have d: "dropWhile isspace (a @ s @ b) = s @ b"
    by (simp add: dropWhile_append list_all_iff)
  from False have "rev s \<noteq> []"
    by simp
  then obtain y ys where rs: "rev s = y # ys"
    by (cases "rev s") auto
  with False l have "\<not> isspace y"
    by (metis hd_rev list.sel(1))
  with rs have "dropWhile isspace (rev s) = rev s"
    by simp
  with assms(2) have "dropWhile isspace (rev b @ rev s) = rev s"
    by (simp add: dropWhile_append list_all_iff)
  with d show ?thesis
    by (simp add: strip_def)
qed

lemma trimmed_from_strip: "trimmed_from line (strip line)"
proof -
  obtain a b where line: "line = a @ strip line @ b"
    and a: "list_all isspace a" and b: "list_all isspace b"
    using strip_decompose by blast
  let ?s = "strip line"
  have i: "length a \<in> set [0 ..< Suc (length line)]"
    using arg_cong [OF line, of length] by simp
  have t1: "take (length a) line = a"
    using arg_cong [OF line, of "take (length a)"] by simp
  have d1: "drop (length a) line = ?s @ b"
    using arg_cong [OF line, of "drop (length a)"] by simp
  have d2: "drop (length a + length ?s) line = b"
    using arg_cong [OF line, of "drop (length a + length ?s)"] by simp
  from a b t1 d1 d2
  have "list_all isspace (take (length a) line) \<and>
        take (length ?s) (drop (length a) line) = ?s \<and>
        list_all isspace (drop (length a + length ?s) line)"
    by simp
  with i have "list_ex (\<lambda>i. list_all isspace (take i line) \<and>
        take (length ?s) (drop i line) = ?s \<and>
        list_all isspace (drop (i + length ?s) line)) [0 ..< Suc (length line)]"
    unfolding list_ex_iff by blast
  with strip_ends [of line] show ?thesis
    unfolding trimmed_from_def by blast
qed

lemma trimmed_from_unique:
  assumes "trimmed_from line s"
  shows "strip line = s"
proof -
  from assms obtain i where a: "list_all isspace (take i line)"
    and s: "take (length s) (drop i line) = s"
    and b: "list_all isspace (drop (i + length s) line)"
    and e: "s = [] \<or> (\<not> isspace (hd s) \<and> \<not> isspace (last s))"
    unfolding trimmed_from_def list_ex_iff by blast
  have "drop i line = s @ drop (i + length s) line"
    by (metis s append_take_drop_id drop_drop add.commute)
  then have "line = take i line @ s @ drop (i + length s) line"
    by (metis append_take_drop_id)
  then have "strip line = strip (take i line @ s @ drop (i + length s) line)"
    by simp
  also have "\<dots> = s"
    using a b e by (rule strip_sandwich)
  finally show ?thesis .
qed

lemma www_removed_eq: "www_removed l w = (w = sub_leading_www l)"
proof (cases "take 4 l = ''www.''")
  case True
  then have l: "l = ''www.'' @ drop 4 l"
    by (metis append_take_drop_id)
  have "(l = ''www.'' @ w) = (w = drop 4 l)"
  proof
    assume "l = ''www.'' @ w"
    then have "drop 4 l = drop 4 (''www.'' @ w)" by simp
    then show "w = drop 4 l" by simp
  next
    assume "w = drop 4 l"
    with l show "l = ''www.'' @ w" by simp
  qed
  with True show ?thesis
    by (simp add: www_removed_def sub_leading_www_def startswith_def eval_nat_numeral)
next
  case False
  then show ?thesis
    by (simp add: www_removed_def sub_leading_www_def startswith_def eval_nat_numeral)
qed

lemma rstrip_slash_decompose:
  "\<exists>t. w = rstrip_slash w @ t \<and> list_all (\<lambda>c. c = CHR ''/'') t"
proof -
  let ?t = "rev (takeWhile (\<lambda>c. c = CHR ''/'') (rev w))"
  have "w = rstrip_slash w @ ?t"
    unfolding rstrip_slash_def by (rule rev_drop_take_while)
  moreover have "list_all (\<lambda>c. c = CHR ''/'') ?t"
    by (auto simp add: list_all_iff dest: set_takeWhileD)
  ultimately show ?thesis by blast
qed

lemma slashes_removed_rstrip: "slashes_removed w (rstrip_slash w)"
proof -
  obtain t where w: "w = rstrip_slash w @ t" and t: "list_all (\<lambda>c. c = CHR ''/'') t"
    using rstrip_slash_decompose by blast
  let ?d = "rstrip_slash w"
  have t1: "take (length ?d) w = ?d"
    using arg_cong [OF w, of "take (length ?d)"] by simp
  have d1: "drop (length ?d) w = t"
    using arg_cong [OF w, of "drop (length ?d)"] by simp
  have "?d = [] \<or> last ?d \<noteq> CHR ''/''"
  proof (cases "?d = []")
    case True
    then show ?thesis by simp
  next
    case False
    let ?r = "dropWhile (\<lambda>c. c = CHR ''/'') (rev w)"
    from False have r: "?r \<noteq> []"
      by (simp add: rstrip_slash_def)
    then have "\<not> (hd ?r = CHR ''/'')"
      by (rule hd_dropWhile)
    moreover from r have "last ?d = hd ?r"
      by (simp add: rstrip_slash_def last_rev)
    ultimately show ?thesis by simp
  qed
  with t1 d1 t show ?thesis
    by (simp add: slashes_removed_def)
qed

lemma slashes_removed_unique:
  assumes "slashes_removed w d"
  shows "rstrip_slash w = d"
proof -
  from assms have t: "take (length d) w = d"
    and s: "list_all (\<lambda>c. c = CHR ''/'') (drop (length d) w)"
    and e: "d = [] \<or> last d \<noteq> CHR ''/''"
    by (simp_all add: slashes_removed_def)
  let ?t = "drop (length d) w"
  from t have w: "w = d @ ?t"
    by (metis append_take_drop_id)
  have "dropWhile (\<lambda>c. c = CHR ''/'') (rev d) = rev d"
  proof (cases "rev d")
    case Nil
    then show ?thesis by simp
  next
    case (Cons y ys)
    then have "d \<noteq> []" by auto
    with e Cons have "y \<noteq> CHR ''/''"
      by (metis hd_rev list.sel(1))
    with Cons show ?thesis by simp
  qed
  with s have "dropWhile (\<lambda>c. c = CHR ''/'') (rev ?t @ rev d) = rev d"
    by (simp add: dropWhile_append list_all_iff)
  then have "rstrip_slash (d @ ?t) = d"
    by (simp add: rstrip_slash_def)
  with w show ?thesis by simp
qed

lemma has_http_scheme_eq:
  "has_http_scheme s = (startswith s ''http://'' \<or> startswith s ''https://'')"
  by (simp add: has_http_scheme_def startswith_def eval_nat_numeral)

subsection \<open>Facts about the candidates and the child sitemaps\<close>

lemma count_individual_sitemaps_eq:
  "count_individual_sitemaps net t locs total_pages log =
     (total_pages + sum_list (map (child_urls net t) locs), log @ requests_for t locs)"
proof (induction locs arbitrary: total_pages log)
  case Nil
  show ?case by (simp add: requests_for_def)
next
  case (Cons loc locs)
  show ?case
  proof (cases loc)
    case None
    with Cons show ?thesis by (simp add: requests_for_def child_urls_def)
  next
    case (Some u)
    with Cons show ?thesis
      by (simp add: requests_for_def child_urls_def split: sum.splits)
  qed
qed

lemma child_urls_nonneg: "0 \<le> child_urls net t loc"
  by (simp add: child_urls_def split: option.splits sum.splits)

lemma sum_child_urls_nonneg: "0 \<le> sum_list (map (child_urls net t) locs)"
  by (induction locs) (simp_all add: child_urls_nonneg)

lemma child_fails_urls: "\<not> child_succeeds net t loc \<Longrightarrow> child_urls net t loc = 0"
  by (auto simp add: child_urls_def child_succeeds_def split: option.splits sum.splits)

lemma sum_child_urls_filter:
  "sum_list (map (child_urls net t) (filter (child_succeeds net t) locs)) =
   sum_list (map (child_urls net t) locs)"
  by (induction locs) (simp_all add: child_fails_urls)

lemma sum_child_urls_zero:
  "(sum_list (map (child_urls net t) locs) = 0) = list_all (\<lambda>l. child_urls net t l = 0) locs"
proof (induction locs)
  case Nil
  show ?case by simp
next
  case (Cons l ls)
  have "0 \<le> child_urls net t l" and "0 \<le> sum_list (map (child_urls net t) ls)"
    by (rule child_urls_nonneg, rule sum_child_urls_nonneg)
  with Cons show ?case by auto
qed

lemma length_individual_sitemaps_of:
  "length (individual_sitemaps_of es) =
   length (filter (\<lambda>s. find_child s loc_tag \<noteq> None) es)"
  by (induction es) (simp_all add: individual_sitemaps_of_def split: option.splits)

lemma read_sitemap_index:
  "findall root sitemap_tag \<noteq> [] \<Longrightarrow>
   read_sitemap net t root total_pages log =
     ((total_pages + sum_list (map (child_urls net t)
          (take 10 (individual_sitemaps_of (findall root sitemap_tag)))),
       ''Sitemap index ('' @ str_nat (length (individual_sitemaps_of (findall root sitemap_tag)))
          @ '' sitemaps)''),
      log @ requests_for t (take 10 (individual_sitemaps_of (findall root sitemap_tag))))"
  by (simp add: read_sitemap_def Let_def count_individual_sitemaps_eq)

lemma read_sitemap_leaf:
  "findall root sitemap_tag = [] \<Longrightarrow>
   read_sitemap net t root total_pages log =
     ((int (length (findall root url_tag)), ''Single sitemap''), log)"
  by (simp add: read_sitemap_def)


lemma try_sitemap_urls_fails:
  "candidate_fails net t u \<Longrightarrow>
   try_sitemap_urls net t (u # rest) total_pages method log =
   try_sitemap_urls net t rest total_pages method (log @ [(u, t)])"
  by (auto simp add: candidate_fails_def split: sum.splits if_splits exn.splits)

lemma try_sitemap_urls_skip:
  "list_all (candidate_fails net t) before \<Longrightarrow>
   try_sitemap_urls net t (before @ rest) total_pages method log =
   try_sitemap_urls net t rest total_pages method (log @ map (\<lambda>u. (u, t)) before)"
proof (induction before arbitrary: log)
  case Nil
  show ?case by simp
next
  case (Cons u us)
  then have u: "candidate_fails net t u" and us: "list_all (candidate_fails net t) us"
    by simp_all
  have "try_sitemap_urls net t ((u # us) @ rest) total_pages method log =
        try_sitemap_urls net t (us @ rest) total_pages method (log @ [(u, t)])"
    using try_sitemap_urls_fails [OF u] by simp
  also have "\<dots> = try_sitemap_urls net t rest total_pages method
                     ((log @ [(u, t)]) @ map (\<lambda>u. (u, t)) us)"
    by (rule Cons.IH [OF us])
  finally show ?case by simp
qed

lemma try_sitemap_urls_parses:
  "candidate_parses net t u root \<Longrightarrow>
   try_sitemap_urls net t (u # rest) total_pages method log =
   (case read_sitemap net t root total_pages (log @ [(u, t)]) of
      (found, log') \<Rightarrow> (Inr found, log'))"
  by (auto simp add: candidate_parses_def split: sum.splits)

subsection \<open>Facts about the labels and the exceptions\<close>

lemma digit_char_isdigit: "d < 10 \<Longrightarrow> isdigit (digit_char d)"
  by (simp add: isdigit_def digit_char_def)

lemma str_nat_digits: "str_nat n \<noteq> [] \<and> list_all isdigit (str_nat n)"
proof (induction n rule: str_nat.induct)
  case (1 n)
  show ?case
  proof (cases "n < 10")
    case True
    then show ?thesis by (simp add: str_nat.simps [of n] digit_char_isdigit)
  next
    case False
    with 1 show ?thesis by (simp add: str_nat.simps [of n] digit_char_isdigit)
  qed
qed

lemma index_label_ok: "is_index_label (''Sitemap index ('' @ str_nat n @ '' sitemaps)'')"
proof -
  have "str_nat n \<noteq> []" and d: "list_all isdigit (str_nat n)"
    using str_nat_digits [of n] by simp_all
  then have "1 \<le> length (str_nat n)"
    by (cases "str_nat n") simp_all
  with d show ?thesis
    by (simp add: is_index_label_def)
qed

lemma read_sitemap_inv:
  assumes "read_sitemap net t root total_pages log = ((n, m), log')" and "0 \<le> total_pages"
  shows "0 \<le> n \<and> (m = ''Single sitemap'' \<or> is_index_label m)"
proof (cases "findall root sitemap_tag = []")
  case True
  with assms show ?thesis by (auto simp add: read_sitemap_leaf)
next
  case False
  let ?locs = "individual_sitemaps_of (findall root sitemap_tag)"
  from assms(1) have "fst (read_sitemap net t root total_pages log) = (n, m)"
    by simp
  then have n: "n = total_pages + sum_list (map (child_urls net t) (take 10 ?locs))"
    and m: "m = ''Sitemap index ('' @ str_nat (length ?locs) @ '' sitemaps)''"
    unfolding read_sitemap_index [OF False] by simp_all
  have "is_index_label m"
    unfolding m by (rule index_label_ok)
  moreover have "0 \<le> n"
    unfolding n using assms(2) sum_child_urls_nonneg [of net t "take 10 ?locs"] by simp
  ultimately show ?thesis by simp
qed

lemma try_sitemap_urls_inv:
  "try_sitemap_urls net t us total_pages method log = (Inr (n, m), log') \<Longrightarrow>
   0 \<le> total_pages \<Longrightarrow>
   0 \<le> n \<and> (m = method \<or> m = ''Single sitemap'' \<or> is_index_label m)"
proof (induction us arbitrary: log)
  case Nil
  then show ?case by simp
next
  case (Cons u us)
  show ?case
  proof (cases "net u t")
    case (Inl e)
    with Cons show ?thesis by (auto split: if_splits)
  next
    case (Inr r)
    show ?thesis
    proof (cases "status_code r = 200")
      case False
      with Inr Cons show ?thesis by auto
    next
      case True
      show ?thesis
      proof (cases "content r")
        case (Inl e)
        with True Inr Cons show ?thesis by (auto split: if_splits)
      next
        case (Inr root)
        with True \<open>net u t = Inr r\<close> Cons.prems
        have "read_sitemap net t root total_pages (log @ [(u, t)]) = ((n, m), log')"
          by (auto split: prod.splits)
        from read_sitemap_inv [OF this Cons.prems(2)] show ?thesis by blast
      qed
    qed
  qed
qed

lemma try_sitemap_urls_raises:
  "try_sitemap_urls net t us total_pages method log = (Inl e, log') \<Longrightarrow> \<not> caught_by_loop e"
proof (induction us arbitrary: log)
  case Nil
  then show ?case by simp
next
  case (Cons u us)
  then show ?case
    by (auto split: sum.splits if_splits prod.splits)
qed

lemma get_page_count_inv:
  assumes "fst (get_page_count net domain t) = Inr (n, m)"
  shows "0 \<le> n \<and>
         (m = ''Invalid domain'' \<or> m = ''No sitemap found'' \<or> m = ''Single sitemap'' \<or>
          m = ''Homepage only (estimate)'' \<or> m = ''Domain inaccessible'' \<or> is_index_label m)"
proof (cases "domain = None \<or> domain = Some []")
  case True
  with assms show ?thesis
    by (auto simp add: get_page_count_def)
next
  case False
  then obtain d where d: "domain = Some d" "d \<noteq> []" by auto
  obtain r log where
    tr: "try_sitemap_urls net t (sitemap_urls d) 0 ''No sitemap found'' [] = (r, log)"
    by (cases "try_sitemap_urls net t (sitemap_urls d) 0 ''No sitemap found'' []") auto
  show ?thesis
  proof (cases r)
    case (Inl e)
    with tr d assms show ?thesis by (simp add: get_page_count_def)
  next
    case (Inr found)
    obtain n0 m0 where f: "found = (n0, m0)" by (cases found) auto
    from try_sitemap_urls_inv [of net t "sitemap_urls d" 0 "''No sitemap found''" "[]" n0 m0 log]
      tr Inr f
    have inv: "0 \<le> n0"
      "m0 = ''No sitemap found'' \<or> m0 = ''Single sitemap'' \<or> is_index_label m0"
      by simp_all
    from assms d tr Inr f
    have "fst (homepage_check net d n0 m0 log) = (n, m)"
      by (simp add: get_page_count_def split: prod.splits)
    then have "(n, m) = (n0, m0) \<or> (n, m) = (1, ''Homepage only (estimate)'') \<or>
               (n, m) = (0, ''Domain inaccessible'')"
      by (auto simp add: homepage_check_def split: if_splits sum.splits)
    with inv show ?thesis
      by auto
  qed
qed

lemma get_page_count_raises:
  assumes "fst (get_page_count net domain t) = Inl e"
  shows "\<not> caught_by_loop e"
proof -
  from assms obtain d log where
    "try_sitemap_urls net t (sitemap_urls d) 0 ''No sitemap found'' [] = (Inl e, log)"
    by (auto simp add: get_page_count_def split: option.splits if_splits prod.splits sum.splits)
  then show ?thesis by (rule try_sitemap_urls_raises)
qed

subsection \<open>Facts about the batch\<close>

lemma record_result_finished:
  "finished_at f \<le> now \<Longrightarrow> record_result f now = record_result f (finished_at f)"
  by (simp add: record_result_def future_result_def)

lemma collect_eq:
  "collect fs now results = results @ map (\<lambda>f. record_result f (finished_at f)) fs"
proof (induction fs arbitrary: now results)
  case Nil
  show ?case by simp
next
  case (Cons f fs)
  have "record_result f (max now (finished_at f)) = record_result f (finished_at f)"
    by (rule record_result_finished) simp
  with Cons show ?case by (simp add: Let_def)
qed

lemma Domain_record_result: "Domain (record_result f now) = fut_domain f"
  by (simp add: record_result_def split: sum.splits exn.splits prod.splits)

lemma fut_domain_submit_all: "map fut_domain (submit_all net finish domains) = domains"
proof -
  have "fut_domain \<circ> (\<lambda>(i, domain). \<lparr>fut_domain = domain, finished_at = finish i,
          outcome = fst (get_page_count net domain 20)\<rparr>) = snd"
    by (simp add: fun_eq_iff)
  then have "map fut_domain (submit_all net finish domains) = map snd (enumerate 0 domains)"
    by (simp add: submit_all_def)
  then show ?thesis by simp
qed

lemma outcome_submit_all:
  "f \<in> set (submit_all net finish domains) \<Longrightarrow>
   outcome f = fst (get_page_count net (fut_domain f) 20)"
  by (auto simp add: submit_all_def)

lemma as_completed_in_time:
  assumes "\<not> snd (as_completed fs timeout)"
  shows "fst (as_completed fs timeout) = sort_key finished_at fs"
proof -
  from assms have "\<forall>f \<in> set fs. finished_at f \<le> timeout"
    by (auto simp add: as_completed_def list_ex_iff not_less)
  then have "filter (\<lambda>f. finished_at f \<le> timeout) (sort_key finished_at fs) =
             sort_key finished_at fs"
    by (simp add: filter_id_conv)
  then show ?thesis by (simp add: as_completed_def)
qed

lemma record_result_inv:
  assumes "outcome f = fst (get_page_count net d t)"
  shows "0 \<le> Pages (record_result f (finished_at f)) \<and>
         returned_method (Method (record_result f (finished_at f))) \<and>
         Method (record_result f (finished_at f)) \<noteq> ''Timeout''"
proof (cases "outcome f")
  case (Inl e)
  with assms have "\<not> caught_by_loop e"
    using get_page_count_raises [of net d t e] by simp
  with Inl show ?thesis
    by (cases e)
      (simp_all add: record_result_def future_result_def returned_method_def
        documented_method_def startswith_def)
next
  case (Inr found)
  obtain n m where f: "found = (n, m)" by (cases found) auto
  with Inr assms have g: "fst (get_page_count net d t) = Inr (n, m)" by simp
  from get_page_count_inv [OF g]
  have n: "0 \<le> n"
    and m: "m = ''Invalid domain'' \<or> m = ''No sitemap found'' \<or> m = ''Single sitemap'' \<or>
          m = ''Homepage only (estimate)'' \<or> m = ''Domain inaccessible'' \<or> is_index_label m"
    by simp_all
  have "\<not> is_index_label ''Timeout''"
    by (simp add: is_index_label_def)
  with m have nt: "m \<noteq> ''Timeout''" by auto
  from m have "returned_method m"
    by (auto simp add: returned_method_def documented_method_def)
  with n nt Inr f show ?thesis
    by (simp add: record_result_def future_result_def)
qed

lemma in_time_returns:
  assumes "list_all (\<lambda>i. finish i \<le> 300) [0 ..< length domains]"
  shows "process_domains_batch net finish domains =
           Inr (collect (fst (as_completed (submit_all net finish domains) 300)) 0 [])"
proof -
  have "\<forall>f \<in> set (submit_all net finish domains). finished_at f \<le> 300"
  proof
    fix f
    assume "f \<in> set (submit_all net finish domains)"
    then obtain i d where "(i, d) \<in> set (enumerate 0 domains)" and f: "finished_at f = finish i"
      by (auto simp add: submit_all_def)
    then have "i < length domains"
      by (simp add: in_set_enumerate_eq)
    with assms have "finish i \<le> 300"
      by (simp add: list_all_iff)
    with f show "finished_at f \<le> 300" by simp
  qed
  then have "\<not> snd (as_completed (submit_all net finish domains) 300)"
    by (auto simp add: as_completed_def list_ex_iff)
  then show ?thesis
    by (simp add: process_domains_batch_def Let_def split_beta)
qed

lemma results_in_time:
  assumes "process_domains_batch net finish domains = Inr results"
  shows "results = map (\<lambda>f. record_result f (finished_at f))
                     (sort_key finished_at (submit_all net finish domains))"
proof -
  let ?fs = "submit_all net finish domains"
  from assms have nr: "\<not> snd (as_completed ?fs 300)"
    and res: "results = collect (fst (as_completed ?fs 300)) 0 []"
    by (auto simp add: process_domains_batch_def Let_def split: prod.splits if_splits)
  from res show ?thesis
    by (simp add: as_completed_in_time [OF nr] collect_eq)
qed

text \<open>
  A task never raises the \<open>TimeoutError\<close> that the loop of the batch looks for, and a
  future that \<open>as_completed\<close> hands out has finished: no record carries the label
  \<open>Timeout\<close>, however long its task has run.
\<close>

lemma per_task_ceiling_never_fires:
  assumes "process_domains_batch net finish domains = Inr results"
  shows "list_all (\<lambda>r. Method r \<noteq> ''Timeout'') results"
proof -
  let ?fs = "submit_all net finish domains"
  have "\<forall>f \<in> set (sort_key finished_at ?fs).
          Method (record_result f (finished_at f)) \<noteq> ''Timeout''"
    using record_result_inv [OF outcome_submit_all] by simp
  then show ?thesis
    unfolding results_in_time [OF assms] by (simp add: list_all_iff)
qed

text \<open>
  One task that finishes after the deadline of the batch makes the whole call raise;
  the records of the tasks that finished in time are not returned.
\<close>

lemma batch_deadline_loses_results:
  assumes "i < length domains" and "300 < finish i"
  shows "process_domains_batch net finish domains = Inl (TimeoutError [])"
proof -
  from assms(1) have "(i, domains ! i) \<in> set (enumerate 0 domains)"
    by (simp add: in_set_enumerate_eq)
  then have "\<lparr>fut_domain = domains ! i, finished_at = finish i,
               outcome = fst (get_page_count net (domains ! i) 20)\<rparr>
             \<in> set (submit_all net finish domains)"
    by (force simp add: submit_all_def)
  with assms(2) have "snd (as_completed (submit_all net finish domains) 300)"
    by (force simp add: as_completed_def list_ex_iff)
  then show ?thesis
    by (simp add: process_domains_batch_def Let_def split_beta)
qed

subsection \<open>The domain normaliser\<close>

lemma clean_domain_Some:
  "clean_domain urlparse (Some line) =
     (case (if startswith (strip line) ''http://'' \<or> startswith (strip line) ''https://''
            then urlparse (strip line) else Inr (strip line)) of
        Inl e \<Rightarrow> Inl e
      | Inr h \<Rightarrow>
          if rstrip_slash (sub_leading_www (lower h)) = [] then Inr None
          else Inr (Some (rstrip_slash (sub_leading_www (lower h)))))"
proof (cases "line = []")
  case True
  have "strip [] = []"
    by (simp add: strip_def)
  with True show ?thesis
    by (simp add: clean_domain_def startswith_def lower_def sub_leading_www_def rstrip_slash_def)
next
  case False
  then show ?thesis
    by (auto simp add: clean_domain_def Let_def split: sum.splits)
qed

text \<open>
  Claim C8, amended. Where \<open>urlparse\<close> gives \<open>WWW.Example.com\<close> for
  \<open>https://WWW.Example.com/\<close>, \<open>clean_domain\<close> maps \<open>https://WWW.Example.com/\<close>,
  \<open>example.com\<close> and \<open>www.example.com\<close> to \<open>example.com\<close>, and the empty string and a string
  of blanks to nothing. In general the white space at the two ends is removed; when what
  is left starts with \<open>http://\<close> or \<open>https://\<close> in lower case, the \<open>netloc\<close> of \<open>urlparse\<close> is
  taken (and an exception of \<open>urlparse\<close> leaves the function), otherwise all of it; the
  case is lowered; one leading \<open>www.\<close> is removed; the slashes at the end are removed; and
  when nothing is left there is no domain. Each step is stated by what it leaves, and
  each step has a result.
\<close>

theorem clean_domain_normalizes:
  assumes "urlparse ''https://WWW.Example.com/'' = Inr ''WWW.Example.com''"
  shows "clean_domain urlparse (Some ''https://WWW.Example.com/'') = Inr (Some ''example.com'') \<and>
         clean_domain urlparse (Some ''example.com'') = Inr (Some ''example.com'') \<and>
         clean_domain urlparse (Some ''www.example.com'') = Inr (Some ''example.com'') \<and>
         clean_domain urlparse (Some []) = Inr None \<and>
         clean_domain urlparse (Some ''   '') = Inr None \<and>
         clean_domain urlparse None = Inr None \<and>
         (trimmed_from line s \<and> \<not> has_http_scheme s \<and>
          www_removed (lower s) w \<and> slashes_removed w d \<longrightarrow>
            clean_domain urlparse (Some line) = Inr (if d = [] then None else Some d)) \<and>
         (trimmed_from line s \<and> has_http_scheme s \<and> urlparse s = Inr netloc \<and>
          www_removed (lower netloc) w \<and> slashes_removed w d \<longrightarrow>
            clean_domain urlparse (Some line) = Inr (if d = [] then None else Some d)) \<and>
         (trimmed_from line s \<and> has_http_scheme s \<and> urlparse s = Inl e \<longrightarrow>
            clean_domain urlparse (Some line) = Inl e) \<and>
         (\<exists>s'. trimmed_from line s') \<and> (\<exists>w'. www_removed l w') \<and> (\<exists>d'. slashes_removed w d')"
proof -
  have s1: "strip ''https://WWW.Example.com/'' = ''https://WWW.Example.com/''"
    by code_simp
  have p1: "startswith ''https://WWW.Example.com/'' ''https://''"
    by code_simp
  have r1: "rstrip_slash (sub_leading_www (lower ''WWW.Example.com'')) = ''example.com''"
    by code_simp
  have e1: "clean_domain urlparse (Some ''https://WWW.Example.com/'') = Inr (Some ''example.com'')"
    unfolding clean_domain_Some s1 using p1 assms r1 by simp
  have p2: "\<not> (startswith (strip ''example.com'') ''http://'' \<or>
                startswith (strip ''example.com'') ''https://'')"
    by code_simp
  have r2: "rstrip_slash (sub_leading_www (lower (strip ''example.com''))) = ''example.com''"
    by code_simp
  have e2: "clean_domain urlparse (Some ''example.com'') = Inr (Some ''example.com'')"
    unfolding clean_domain_Some using p2 r2 by simp
  have p3: "\<not> (startswith (strip ''www.example.com'') ''http://'' \<or>
                startswith (strip ''www.example.com'') ''https://'')"
    by code_simp
  have r3: "rstrip_slash (sub_leading_www (lower (strip ''www.example.com''))) = ''example.com''"
    by code_simp
  have e3: "clean_domain urlparse (Some ''www.example.com'') = Inr (Some ''example.com'')"
    unfolding clean_domain_Some using p3 r3 by simp
  have e4: "clean_domain urlparse (Some []) = Inr None"
    by (simp add: clean_domain_def)
  have p5: "\<not> (startswith (strip ''   '') ''http://'' \<or> startswith (strip ''   '') ''https://'')"
    by code_simp
  have r5: "rstrip_slash (sub_leading_www (lower (strip ''   ''))) = []"
    by code_simp
  have e5: "clean_domain urlparse (Some ''   '') = Inr None"
    unfolding clean_domain_Some using p5 r5 by simp
  have e6: "clean_domain urlparse None = Inr None"
    by (simp add: clean_domain_def)
  have g1: "trimmed_from line s \<and> \<not> has_http_scheme s \<and>
          www_removed (lower s) w \<and> slashes_removed w d \<longrightarrow>
            clean_domain urlparse (Some line) = Inr (if d = [] then None else Some d)"
  proof
    assume a: "trimmed_from line s \<and> \<not> has_http_scheme s \<and>
          www_removed (lower s) w \<and> slashes_removed w d"
    from a have "trimmed_from line s" by (elim conjE)
    then have t: "strip line = s" by (rule trimmed_from_unique)
    from a have "\<not> has_http_scheme s" by (elim conjE)
    then have n: "\<not> (startswith s ''http://'' \<or> startswith s ''https://'')"
      by (simp add: has_http_scheme_eq)
    from a have "www_removed (lower s) w" by (elim conjE)
    then have w: "sub_leading_www (lower s) = w" by (simp add: www_removed_eq)
    from a have "slashes_removed w d" by (elim conjE)
    then have d: "rstrip_slash w = d" by (rule slashes_removed_unique)
    from n show "clean_domain urlparse (Some line) = Inr (if d = [] then None else Some d)"
      unfolding clean_domain_Some t by (simp add: w d)
  qed
  have g2: "trimmed_from line s \<and> has_http_scheme s \<and> urlparse s = Inr netloc \<and>
          www_removed (lower netloc) w \<and> slashes_removed w d \<longrightarrow>
            clean_domain urlparse (Some line) = Inr (if d = [] then None else Some d)"
  proof
    assume a: "trimmed_from line s \<and> has_http_scheme s \<and> urlparse s = Inr netloc \<and>
          www_removed (lower netloc) w \<and> slashes_removed w d"
    from a have "trimmed_from line s" by (elim conjE)
    then have t: "strip line = s" by (rule trimmed_from_unique)
    from a have "has_http_scheme s" by (elim conjE)
    then have n: "startswith s ''http://'' \<or> startswith s ''https://''"
      by (simp add: has_http_scheme_eq)
    from a have u: "urlparse s = Inr netloc" by (elim conjE)
    from a have "www_removed (lower netloc) w" by (elim conjE)
    then have w: "sub_leading_www (lower netloc) = w" by (simp add: www_removed_eq)
    from a have "slashes_removed w d" by (elim conjE)
    then have d: "rstrip_slash w = d" by (rule slashes_removed_unique)
    from n have "(if startswith s ''http://'' \<or> startswith s ''https://''
                  then urlparse s else Inr s) = Inr netloc"
      by (simp add: u)
    then show "clean_domain urlparse (Some line) = Inr (if d = [] then None else Some d)"
      unfolding clean_domain_Some t by (simp add: w d)
  qed
  have g3: "trimmed_from line s \<and> has_http_scheme s \<and> urlparse s = Inl e \<longrightarrow>
            clean_domain urlparse (Some line) = Inl e"
  proof
    assume a: "trimmed_from line s \<and> has_http_scheme s \<and> urlparse s = Inl e"
    from a have "trimmed_from line s" by (elim conjE)
    then have t: "strip line = s" by (rule trimmed_from_unique)
    from a have "has_http_scheme s" by (elim conjE)
    then have n: "startswith s ''http://'' \<or> startswith s ''https://''"
      by (simp add: has_http_scheme_eq)
    from a have u: "urlparse s = Inl e" by (elim conjE)
    from n have "(if startswith s ''http://'' \<or> startswith s ''https://''
                  then urlparse s else Inr s) = Inl e"
      by (simp add: u)
    then show "clean_domain urlparse (Some line) = Inl e"
      unfolding clean_domain_Some t by simp
  qed
  have x1: "\<exists>s'. trimmed_from line s'"
    using trimmed_from_strip by blast
  have x2: "\<exists>w'. www_removed l w'"
    by (simp add: www_removed_eq)
  have x3: "\<exists>d'. slashes_removed w d'"
    using slashes_removed_rstrip by blast
  from e1 e2 e3 e4 e5 e6 g1 g2 g3 x1 x2 x3 show ?thesis
    by (intro conjI)
qed

text \<open>
  With the \<open>urlparse\<close> of the examples: the five inputs of the claim; a line with blanks,
  capital letters, a leading \<open>www.\<close> and two slashes at the end; a URL with a path; and a
  URL on which \<open>urlparse\<close> raises.
\<close>

theorem clean_domain_normalizes_witness:
  "urlparse_netloc ''https://WWW.Example.com/'' = Inr ''WWW.Example.com'' \<and>
   clean_domain urlparse_netloc (Some ''https://WWW.Example.com/'') = Inr (Some ''example.com'') \<and>
   clean_domain urlparse_netloc (Some ''example.com'') = Inr (Some ''example.com'') \<and>
   clean_domain urlparse_netloc (Some ''www.example.com'') = Inr (Some ''example.com'') \<and>
   clean_domain urlparse_netloc (Some []) = Inr None \<and>
   clean_domain urlparse_netloc (Some ''   '') = Inr None \<and>
   trimmed_from '' www.Example.com// '' ''www.Example.com//'' \<and>
   \<not> has_http_scheme ''www.Example.com//'' \<and>
   www_removed (lower ''www.Example.com//'') ''example.com//'' \<and>
   slashes_removed ''example.com//'' ''example.com'' \<and>
   clean_domain urlparse_netloc (Some '' www.Example.com// '') = Inr (Some ''example.com'') \<and>
   trimmed_from ''https://www.A.com/x/ '' ''https://www.A.com/x/'' \<and>
   has_http_scheme ''https://www.A.com/x/'' \<and>
   urlparse_netloc ''https://www.A.com/x/'' = Inr ''www.A.com'' \<and>
   www_removed (lower ''www.A.com'') ''a.com'' \<and>
   slashes_removed ''a.com'' ''a.com'' \<and>
   clean_domain urlparse_netloc (Some ''https://www.A.com/x/ '') = Inr (Some ''a.com'') \<and>
   trimmed_from ''https://[abc/'' ''https://[abc/'' \<and>
   has_http_scheme ''https://[abc/'' \<and>
   urlparse_netloc ''https://[abc/'' = Inl (ValueError ''Invalid IPv6 URL'') \<and>
   clean_domain urlparse_netloc (Some ''https://[abc/'') = Inl (ValueError ''Invalid IPv6 URL'')"
proof -
  have h: "urlparse_netloc ''https://WWW.Example.com/'' = Inr ''WWW.Example.com''"
    by code_simp
  note inst = clean_domain_normalizes [where urlparse = urlparse_netloc, OF h]
  have a1: "trimmed_from '' www.Example.com// '' ''www.Example.com//''"
    by code_simp
  have a2: "\<not> has_http_scheme ''www.Example.com//''"
    by code_simp
  have a3: "www_removed (lower ''www.Example.com//'') ''example.com//''"
    by code_simp
  have a4: "slashes_removed ''example.com//'' ''example.com''"
    by code_simp
  from inst [where line = "'' www.Example.com// ''" and s = "''www.Example.com//''"
      and w = "''example.com//''" and d = "''example.com''"] a1 a2 a3 a4
  have a5: "clean_domain urlparse_netloc (Some '' www.Example.com// '') = Inr (Some ''example.com'')"
    by simp
  have b1: "trimmed_from ''https://www.A.com/x/ '' ''https://www.A.com/x/''"
    by code_simp
  have b2: "has_http_scheme ''https://www.A.com/x/''"
    by code_simp
  have b3: "urlparse_netloc ''https://www.A.com/x/'' = Inr ''www.A.com''"
    by code_simp
  have b4: "www_removed (lower ''www.A.com'') ''a.com''"
    by code_simp
  have b5: "slashes_removed ''a.com'' ''a.com''"
    by code_simp
  from inst [where line = "''https://www.A.com/x/ ''" and s = "''https://www.A.com/x/''"
      and w = "''a.com''" and d = "''a.com''" and netloc = "''www.A.com''"] b1 b2 b3 b4 b5
  have b6: "clean_domain urlparse_netloc (Some ''https://www.A.com/x/ '') = Inr (Some ''a.com'')"
    by simp
  have c1: "trimmed_from ''https://[abc/'' ''https://[abc/''"
    by code_simp
  have c2: "has_http_scheme ''https://[abc/''"
    by code_simp
  have c3: "urlparse_netloc ''https://[abc/'' = Inl (ValueError ''Invalid IPv6 URL'')"
    by code_simp
  from inst [where line = "''https://[abc/''" and s = "''https://[abc/''"
      and e = "ValueError ''Invalid IPv6 URL''"] c1 c2 c3
  have c4: "clean_domain urlparse_netloc (Some ''https://[abc/'') =
      Inl (ValueError ''Invalid IPv6 URL'')"
    by simp
  note e1 = inst [THEN conjunct1]
  note e2 = inst [THEN conjunct2, THEN conjunct1]
  note e3 = inst [THEN conjunct2, THEN conjunct2, THEN conjunct1]
  note e4 = inst [THEN conjunct2, THEN conjunct2, THEN conjunct2, THEN conjunct1]
  note e5 = inst [THEN conjunct2, THEN conjunct2, THEN conjunct2, THEN conjunct2, THEN conjunct1]
  from h e1 e2 e3 e4 e5 a1 a2 a3 a4 a5 b1 b2 b3 b4 b5 b6 c1 c2 c3 c4 show ?thesis
    by (intro conjI)
qed

text \<open>
  The claim as it stands takes the host of the URL whenever the input starts with an
  HTTP or HTTPS scheme. The user information and the port stay in the result, and then a
  \<open>www.\<close> after the user information stays too; and a scheme in capital letters is not
  seen as one.
\<close>

theorem clean_domain_host_counterexample:
  "clean_domain urlparse_netloc (Some ''https://user@WWW.Example.com:8080/path?q=1'') =
     Inr (Some ''user@www.example.com:8080'') \<and>
   clean_domain urlparse_netloc (Some ''HTTP://WWW.Example.com/'') =
     Inr (Some ''http://www.example.com'')"
  by code_simp

subsection \<open>The sitemap resolver\<close>

text \<open>
  Claim C10. For a domain that is \<open>None\<close> or the empty string, \<open>get_page_count\<close> returns
  \<open>(0, "Invalid domain")\<close> and sends no request; the label \<open>Invalid domain\<close> is not one
  of the documented method labels.
\<close>

theorem invalid_domain_label:
  "get_page_count net None t = (Inr (0, ''Invalid domain''), []) \<and>
   get_page_count net (Some []) t = (Inr (0, ''Invalid domain''), []) \<and>
   \<not> documented_method ''Invalid domain''"
proof -
  have "\<not> documented_method ''Invalid domain''"
    by (simp add: documented_method_def is_index_label_def startswith_def)
  then show ?thesis
    by (simp add: get_page_count_def)
qed



subsection \<open>The index expander\<close>

text \<open>
  Claim C6, amended. For a document with sitemap entries, the requests sent are those for
  the first ten listed locations and no others, and the count is the sum of the numbers
  of url elements of those among them that are fetched with status 200 and parse; a
  child that fails adds nothing and stops nothing. The count is 0 when no child
  succeeds, and in general exactly when every one of the first ten children contributes
  no url element, be it by failing or by being an empty sitemap.
\<close>

theorem index_expander_sum:
  assumes "findall root sitemap_tag \<noteq> []"
    and "locs = individual_sitemaps_of (findall root sitemap_tag)"
  shows "fst (fst (read_sitemap net t root 0 log)) =
           sum_list (map (child_urls net t) (filter (child_succeeds net t) (take 10 locs))) \<and>
         snd (read_sitemap net t root 0 log) = log @ requests_for t (take 10 locs) \<and>
         (list_all (\<lambda>l. \<not> child_succeeds net t l) (take 10 locs) \<longrightarrow>
            fst (fst (read_sitemap net t root 0 log)) = 0) \<and>
         (fst (fst (read_sitemap net t root 0 log)) = 0) =
            list_all (\<lambda>l. child_urls net t l = 0) (take 10 locs)"
proof -
  have r: "fst (fst (read_sitemap net t root 0 log)) =
           sum_list (map (child_urls net t) (take 10 locs))"
    using assms by (simp add: read_sitemap_index)
  have l: "snd (read_sitemap net t root 0 log) = log @ requests_for t (take 10 locs)"
    using assms by (simp add: read_sitemap_index)
  have z: "(fst (fst (read_sitemap net t root 0 log)) = 0) =
            list_all (\<lambda>l. child_urls net t l = 0) (take 10 locs)"
    unfolding r by (rule sum_child_urls_zero)
  have n: "list_all (\<lambda>l. \<not> child_succeeds net t l) (take 10 locs) \<longrightarrow>
            fst (fst (read_sitemap net t root 0 log)) = 0"
    unfolding z by (simp add: list_all_iff child_fails_urls)
  from r l z n show ?thesis
    by (simp only: sum_child_urls_filter simp_thms)
qed

text \<open>
  An index lists twelve children; the first has ten entries, the second fails, the third
  has five, the fourth to the tenth fail, the last two have seven each. The count is 15
  and the last two are not requested. With no child served the count is 0.
\<close>

theorem index_expander_sum_witness:
  "findall (sitemapindex twelve_locs) sitemap_tag \<noteq> [] \<and>
   twelve_locs = individual_sitemaps_of (findall (sitemapindex twelve_locs) sitemap_tag) \<and>
   fst (fst (read_sitemap twelve_children 20 (sitemapindex twelve_locs) 0 [])) = 15 \<and>
   snd (read_sitemap twelve_children 20 (sitemapindex twelve_locs) 0 []) =
     [(''https://a.com/s1.xml'', 20), (''https://a.com/s2.xml'', 20),
      (''https://a.com/s3.xml'', 20), (''https://a.com/s4.xml'', 20),
      (''https://a.com/s5.xml'', 20), (''https://a.com/s6.xml'', 20),
      (''https://a.com/s7.xml'', 20), (''https://a.com/s8.xml'', 20),
      (''https://a.com/s9.xml'', 20), (''https://a.com/s10.xml'', 20)] \<and>
   list_all (\<lambda>l. \<not> child_succeeds (serve []) 20 l) (take 10 twelve_locs) \<and>
   fst (fst (read_sitemap (serve []) 20 (sitemapindex twelve_locs) 0 [])) = 0"
proof -
  have h1: "findall (sitemapindex twelve_locs) sitemap_tag \<noteq> []"
    by code_simp
  have h2: "twelve_locs = individual_sitemaps_of (findall (sitemapindex twelve_locs) sitemap_tag)"
    by code_simp
  have h3: "list_all (\<lambda>l. \<not> child_succeeds (serve []) 20 l) (take 10 twelve_locs)"
    by code_simp
  have s: "sum_list (map (child_urls twelve_children 20)
             (filter (child_succeeds twelve_children 20) (take 10 twelve_locs))) = 15"
    by code_simp
  have q: "requests_for 20 (take 10 twelve_locs) =
     [(''https://a.com/s1.xml'', 20), (''https://a.com/s2.xml'', 20),
      (''https://a.com/s3.xml'', 20), (''https://a.com/s4.xml'', 20),
      (''https://a.com/s5.xml'', 20), (''https://a.com/s6.xml'', 20),
      (''https://a.com/s7.xml'', 20), (''https://a.com/s8.xml'', 20),
      (''https://a.com/s9.xml'', 20), (''https://a.com/s10.xml'', 20)]"
    by code_simp
  from index_expander_sum [OF h1 h2, of twelve_children 20 "[]"] s q
  have c1: "fst (fst (read_sitemap twelve_children 20 (sitemapindex twelve_locs) 0 [])) = 15"
    and c2: "snd (read_sitemap twelve_children 20 (sitemapindex twelve_locs) 0 []) =
     [(''https://a.com/s1.xml'', 20), (''https://a.com/s2.xml'', 20),
      (''https://a.com/s3.xml'', 20), (''https://a.com/s4.xml'', 20),
      (''https://a.com/s5.xml'', 20), (''https://a.com/s6.xml'', 20),
      (''https://a.com/s7.xml'', 20), (''https://a.com/s8.xml'', 20),
      (''https://a.com/s9.xml'', 20), (''https://a.com/s10.xml'', 20)]"
    by simp_all
  from index_expander_sum [OF h1 h2, of "serve []" 20 "[]"] h3
  have c3: "fst (fst (read_sitemap (serve []) 20 (sitemapindex twelve_locs) 0 [])) = 0"
    by blast
  from h1 h2 c1 c2 h3 c3 show ?thesis by blast
qed

text \<open>
  The claim as it stands says that 0 is returned only when no child succeeds. An index
  whose one child is fetched and parsed and has no url element gives 0.
\<close>

theorem index_expander_zero_counterexample:
  "child_succeeds one_empty_child 20 (Some ''https://a.com/s1.xml'') \<and>
   read_sitemap one_empty_child 20 (sitemapindex [Some ''https://a.com/s1.xml'']) 0 [] =
     ((0, ''Sitemap index (1 sitemaps)''), [(''https://a.com/s1.xml'', 20)])"
  by code_simp

subsection \<open>Index or leaf\<close>

text \<open>
  Claim C7, amended. A parsed document with one or more sitemap elements of the sitemap
  0.9 namespace is read as an index, and the method is \<open>Sitemap index (N sitemaps)\<close>
  where \<open>N\<close> is the number of those sitemap elements that have a \<open>loc\<close> child: not the
  number fetched, and not capped at ten. A document without sitemap elements is read as
  a leaf: the count is the number of its url elements, the method is \<open>Single sitemap\<close>,
  and nothing more is requested.
\<close>

theorem index_label_counts_entries:
  "(findall root sitemap_tag \<noteq> [] \<longrightarrow>
      snd (fst (read_sitemap net t root total_pages log)) =
        ''Sitemap index ('' @
          str_nat (length (filter (\<lambda>s. find_child s loc_tag \<noteq> None) (findall root sitemap_tag)))
          @ '' sitemaps)'') \<and>
   (findall root sitemap_tag = [] \<longrightarrow>
      read_sitemap net t root total_pages log =
        ((int (length (findall root url_tag)), ''Single sitemap''), log))"
  by (simp add: read_sitemap_index read_sitemap_leaf length_individual_sitemaps_of)

text \<open>
  The index of twelve children, of which ten are requested and two answer, is labelled
  with 12; a sitemap of three entries is a leaf.
\<close>

theorem index_label_counts_entries_witness:
  "findall (sitemapindex twelve_locs) sitemap_tag \<noteq> [] \<and>
   snd (fst (read_sitemap twelve_children 20 (sitemapindex twelve_locs) 0 [])) =
     ''Sitemap index (12 sitemaps)'' \<and>
   findall (urlset 3) sitemap_tag = [] \<and>
   read_sitemap www_site 20 (urlset 3) 0 [] = ((3, ''Single sitemap''), [])"
proof -
  have h1: "findall (sitemapindex twelve_locs) sitemap_tag \<noteq> []"
    by code_simp
  have h2: "findall (urlset 3) sitemap_tag = []"
    by code_simp
  have n: "str_nat (length (filter (\<lambda>s. find_child s loc_tag \<noteq> None)
             (findall (sitemapindex twelve_locs) sitemap_tag))) = ''12''"
    by code_simp
  have u: "int (length (findall (urlset 3) url_tag)) = 3"
    by code_simp
  from index_label_counts_entries [of "sitemapindex twelve_locs" twelve_children 20 0 "[]"] h1
  have "snd (fst (read_sitemap twelve_children 20 (sitemapindex twelve_locs) 0 [])) =
        ''Sitemap index ('' @
          str_nat (length (filter (\<lambda>s. find_child s loc_tag \<noteq> None)
            (findall (sitemapindex twelve_locs) sitemap_tag)))
          @ '' sitemaps)''"
    by blast
  then have c1: "snd (fst (read_sitemap twelve_children 20 (sitemapindex twelve_locs) 0 [])) =
     ''Sitemap index (12 sitemaps)''"
    unfolding n by simp
  from index_label_counts_entries [of "urlset 3" www_site 20 0 "[]"] h2
  have "read_sitemap www_site 20 (urlset 3) 0 [] =
        ((int (length (findall (urlset 3) url_tag)), ''Single sitemap''), [])"
    by blast
  then have c2: "read_sitemap www_site 20 (urlset 3) 0 [] = ((3, ''Single sitemap''), [])"
    unfolding u by simp
  from h1 c1 h2 c2 show ?thesis by blast
qed

text \<open>
  The claim as it stands takes \<open>N\<close> to be the number of child entries found and reads
  every other document as a leaf. A document whose one sitemap element has no \<open>loc\<close> is
  read as an index, and labelled with 0.
\<close>

theorem index_label_counterexample:
  "length (findall index_without_loc sitemap_tag) = 1 \<and>
   individual_sitemaps_of (findall index_without_loc sitemap_tag) = [] \<and>
   fst (read_sitemap (serve []) 20 index_without_loc 0 []) = (0, ''Sitemap index (0 sitemaps)'') \<and>
   snd (fst (read_sitemap (serve []) 20 index_without_loc 0 [])) \<noteq> ''Sitemap index (1 sitemaps)'' \<and>
   snd (fst (read_sitemap (serve []) 20 index_without_loc 0 [])) \<noteq> ''Single sitemap''"
  by code_simp

subsection \<open>The homepage fallback\<close>

text \<open>
  Claim C3, amended. When the loop over the candidates ends with a count of 0, one GET
  for \<open>https://{domain}\<close> with a timeout of 5 seconds follows. A response with status 200
  gives \<open>(1, "Homepage only (estimate)")\<close>; an exception gives
  \<open>(0, "Domain inaccessible")\<close>; a response with any other status gives the count 0 and
  leaves the method as the loop set it (\<open>No sitemap found\<close> when no candidate parsed).
  When the count is not 0 nothing is requested and the result of the loop is returned.
\<close>

theorem fallback_outcomes:
  assumes "d \<noteq> []"
    and "try_sitemap_urls net t (sitemap_urls d) 0 ''No sitemap found'' [] =
           (Inr (total_pages, method), log)"
  shows "get_page_count net (Some d) t =
           (if total_pages = 0
            then (Inr (case net (''https://'' @ d) 5 of
                         Inl e \<Rightarrow> (0, ''Domain inaccessible'')
                       | Inr r \<Rightarrow> if status_code r = 200
                                  then (1, ''Homepage only (estimate)'')
                                  else (0, method)),
                  log @ [(''https://'' @ d, 5)])
            else (Inr (total_pages, method), log))"
  using assms by (simp add: get_page_count_def homepage_check_def split: sum.splits)

text \<open>
  \<open>a.com\<close> answers 404 at the four candidates and 200 at the homepage.
\<close>

theorem fallback_outcomes_witness:
  "''a.com'' \<noteq> [] \<and>
   try_sitemap_urls homepage_only 20 (sitemap_urls ''a.com'') 0 ''No sitemap found'' [] =
     (Inr (0, ''No sitemap found''),
      [(''https://a.com/sitemap.xml'', 20), (''https://www.a.com/sitemap.xml'', 20),
       (''https://a.com/sitemap_index.xml'', 20), (''https://www.a.com/sitemap_index.xml'', 20)]) \<and>
   get_page_count homepage_only (Some ''a.com'') 20 =
     (Inr (1, ''Homepage only (estimate)''),
      [(''https://a.com/sitemap.xml'', 20), (''https://www.a.com/sitemap.xml'', 20),
       (''https://a.com/sitemap_index.xml'', 20), (''https://www.a.com/sitemap_index.xml'', 20),
       (''https://a.com'', 5)])"
proof -
  have h1: "''a.com'' \<noteq> []"
    by simp
  have h2: "try_sitemap_urls homepage_only 20 (sitemap_urls ''a.com'') 0 ''No sitemap found'' [] =
     (Inr (0, ''No sitemap found''),
      [(''https://a.com/sitemap.xml'', 20), (''https://www.a.com/sitemap.xml'', 20),
       (''https://a.com/sitemap_index.xml'', 20), (''https://www.a.com/sitemap_index.xml'', 20)])"
    by code_simp
  have p: "homepage_only ''https://a.com'' 5 = Inr page" and s: "status_code page = 200"
    by code_simp+
  from fallback_outcomes [OF h1 h2] p s
  have "get_page_count homepage_only (Some ''a.com'') 20 =
     (Inr (1, ''Homepage only (estimate)''),
      [(''https://a.com/sitemap.xml'', 20), (''https://www.a.com/sitemap.xml'', 20),
       (''https://a.com/sitemap_index.xml'', 20), (''https://www.a.com/sitemap_index.xml'', 20),
       (''https://a.com'', 5)])"
    by simp
  with h1 h2 show ?thesis by blast
qed

text \<open>
  The claim as it stands allows two outcomes of the fallback. Where the homepage answers
  404 as the four candidates do, the outcome is a third one.
\<close>

theorem fallback_third_outcome_counterexample:
  "get_page_count all_not_found (Some ''a.com'') 20 =
     (Inr (0, ''No sitemap found''),
      [(''https://a.com/sitemap.xml'', 20), (''https://www.a.com/sitemap.xml'', 20),
       (''https://a.com/sitemap_index.xml'', 20), (''https://www.a.com/sitemap_index.xml'', 20),
       (''https://a.com'', 5)]) \<and>
   fst (get_page_count all_not_found (Some ''a.com'') 20) \<noteq> Inr (1, ''Homepage only (estimate)'') \<and>
   fst (get_page_count all_not_found (Some ''a.com'') 20) \<noteq> Inr (0, ''Domain inaccessible'')"
  by code_simp

text \<open>
  Claim C9, amended. When the first candidate that parses is a leaf sitemap without url
  elements, the count is 0 and the homepage is requested: the result is
  \<open>(1, "Homepage only (estimate)")\<close> when the homepage answers with status 200,
  \<open>(0, "Domain inaccessible")\<close> when the request raises, and \<open>(0, "Single sitemap")\<close> when
  the homepage answers with any other status.
\<close>

theorem empty_leaf_falls_back:
  assumes "d \<noteq> []"
    and "sitemap_urls d = before @ u # rest"
    and "list_all (candidate_fails net t) before"
    and "candidate_parses net t u root"
    and "findall root sitemap_tag = []"
    and "findall root url_tag = []"
  shows "get_page_count net (Some d) t =
           (Inr (case net (''https://'' @ d) 5 of
                   Inl e \<Rightarrow> (0, ''Domain inaccessible'')
                 | Inr r \<Rightarrow> if status_code r = 200
                            then (1, ''Homepage only (estimate)'')
                            else (0, ''Single sitemap'')),
            map (\<lambda>c. (c, t)) (before @ [u]) @ [(''https://'' @ d, 5)])"
proof -
  have "try_sitemap_urls net t (sitemap_urls d) 0 ''No sitemap found'' [] =
          (Inr (0, ''Single sitemap''), map (\<lambda>c. (c, t)) (before @ [u]))"
    using assms(2-6)
    by (simp add: try_sitemap_urls_skip try_sitemap_urls_parses read_sitemap_leaf
        del: try_sitemap_urls.simps)
  with assms(1) show ?thesis
    by (simp add: get_page_count_def homepage_check_def split: sum.splits)
qed

text \<open>
  \<open>a.com\<close> serves a sitemap without entries at the first candidate, and a homepage.
\<close>

theorem empty_leaf_falls_back_witness:
  "''a.com'' \<noteq> [] \<and>
   sitemap_urls ''a.com'' =
     [] @ ''https://a.com/sitemap.xml'' #
     [''https://www.a.com/sitemap.xml'', ''https://a.com/sitemap_index.xml'',
      ''https://www.a.com/sitemap_index.xml''] \<and>
   list_all (candidate_fails empty_leaf_with_homepage 20) [] \<and>
   candidate_parses empty_leaf_with_homepage 20 ''https://a.com/sitemap.xml'' (urlset 0) \<and>
   findall (urlset 0) sitemap_tag = [] \<and>
   findall (urlset 0) url_tag = [] \<and>
   get_page_count empty_leaf_with_homepage (Some ''a.com'') 20 =
     (Inr (1, ''Homepage only (estimate)''),
      [(''https://a.com/sitemap.xml'', 20), (''https://a.com'', 5)])"
proof -
  have h1: "''a.com'' \<noteq> []"
    by simp
  have h2: "sitemap_urls ''a.com'' =
     [] @ ''https://a.com/sitemap.xml'' #
     [''https://www.a.com/sitemap.xml'', ''https://a.com/sitemap_index.xml'',
      ''https://www.a.com/sitemap_index.xml'']"
    by (simp add: sitemap_urls_def)
  have h3: "list_all (candidate_fails empty_leaf_with_homepage 20) []"
    by simp
  have h4: "candidate_parses empty_leaf_with_homepage 20 ''https://a.com/sitemap.xml'' (urlset 0)"
    by code_simp
  have h5: "findall (urlset 0) sitemap_tag = []"
    by code_simp
  have h6: "findall (urlset 0) url_tag = []"
    by code_simp
  have p: "empty_leaf_with_homepage ''https://a.com'' 5 = Inr page"
    and s: "status_code page = 200"
    by code_simp+
  from empty_leaf_falls_back [OF h1 h2 h3 h4 h5 h6] p s
  have "get_page_count empty_leaf_with_homepage (Some ''a.com'') 20 =
     (Inr (1, ''Homepage only (estimate)''),
      [(''https://a.com/sitemap.xml'', 20), (''https://a.com'', 5)])"
    by simp
  with h1 h2 h3 h4 h5 h6 show ?thesis by blast
qed

text \<open>
  The claim as it stands says that \<open>(0, "Single sitemap")\<close> is not returned. It is, where
  the sitemap has no entries and the homepage answers 404.
\<close>

theorem empty_leaf_counterexample:
  "candidate_parses empty_leaf_no_homepage 20 ''https://a.com/sitemap.xml'' (urlset 0) \<and>
   findall (urlset 0) url_tag = [] \<and>
   get_page_count empty_leaf_no_homepage (Some ''a.com'') 20 =
     (Inr (0, ''Single sitemap''),
      [(''https://a.com/sitemap.xml'', 20), (''https://a.com'', 5)])"
  by code_simp

subsection \<open>The batch\<close>

text \<open>
  Claim C2, amended. When every task finishes before the deadline of the batch, the
  call returns a list that holds exactly one record for each domain of the input list,
  domains that were inaccessible or whose task raised included, so that no domain has
  two records when the input has no duplicates; every record has a page count that is
  not negative, and a method that is one of the documented labels, \<open>No sitemap found\<close>
  or \<open>Invalid domain\<close>.
\<close>

theorem batch_one_record_per_domain:
  assumes "list_all (\<lambda>i. finish i \<le> 300) [0 ..< length domains]"
  shows "\<exists>results.
           process_domains_batch net finish domains = Inr results \<and>
           mset (map Domain results) = mset domains \<and>
           length results = length domains \<and>
           (distinct domains \<longrightarrow> distinct (map Domain results)) \<and>
           list_all (\<lambda>r. 0 \<le> Pages r \<and> returned_method (Method r)) results"
proof -
  let ?fs = "submit_all net finish domains"
  let ?results = "collect (fst (as_completed ?fs 300)) 0 []"
  have ret: "process_domains_batch net finish domains = Inr ?results"
    using assms by (rule in_time_returns)
  note r = results_in_time [OF ret]
  have "map Domain ?results = map fut_domain (sort_key finished_at ?fs)"
    unfolding r by (simp add: Domain_record_result)
  then have "mset (map Domain ?results) = mset (map fut_domain ?fs)"
    by simp
  then have d: "mset (map Domain ?results) = mset domains"
    by (simp only: fut_domain_submit_all)
  from d have l: "length ?results = length domains"
    by (metis length_map size_mset)
  have u: "distinct domains \<longrightarrow> distinct (map Domain ?results)"
    using mset_eq_imp_distinct_iff [OF d] by simp
  have "\<forall>f \<in> set (sort_key finished_at ?fs).
          0 \<le> Pages (record_result f (finished_at f)) \<and>
          returned_method (Method (record_result f (finished_at f)))"
    using record_result_inv [OF outcome_submit_all] by simp
  then have a: "list_all (\<lambda>r. 0 \<le> Pages r \<and> returned_method (Method r)) ?results"
    unfolding r by (simp add: list_all_iff)
  from ret d l u a show ?thesis
    by (intro exI [of _ ?results] conjI)
qed

text \<open>
  The input lines \<open>https://a.com\<close>, \<open>a.com\<close> and \<open>http://b.org\<close> name two domains. Both
  tasks finish in time, the second first: two records, in the order of completion.
\<close>

theorem batch_one_record_per_domain_witness:
  "unique_domains urlparse_netloc [''https://a.com'', ''a.com'', ''http://b.org''] =
     Inr [''a.com'', ''b.org''] \<and>
   list_all (\<lambda>i. second_first i \<le> 300) [0 ..< length [Some ''a.com'', Some ''b.org'']] \<and>
   process_domains_batch two_sites second_first [Some ''a.com'', Some ''b.org''] =
     Inr [\<lparr>Domain = Some ''b.org'', Pages = 2, Method = ''Single sitemap''\<rparr>,
          \<lparr>Domain = Some ''a.com'', Pages = 3, Method = ''Single sitemap''\<rparr>] \<and>
   distinct [Some ''a.com'', Some ''b.org''] \<and>
   mset (map Domain [\<lparr>Domain = Some ''b.org'', Pages = 2, Method = ''Single sitemap''\<rparr>,
                     \<lparr>Domain = Some ''a.com'', Pages = 3, Method = ''Single sitemap''\<rparr>]) =
     mset [Some ''a.com'', Some ''b.org''] \<and>
   distinct (map Domain [\<lparr>Domain = Some ''b.org'', Pages = 2, Method = ''Single sitemap''\<rparr>,
                         \<lparr>Domain = Some ''a.com'', Pages = 3, Method = ''Single sitemap''\<rparr>]) \<and>
   list_all (\<lambda>r. 0 \<le> Pages r \<and> returned_method (Method r))
     [\<lparr>Domain = Some ''b.org'', Pages = 2, Method = ''Single sitemap''\<rparr>,
      \<lparr>Domain = Some ''a.com'', Pages = 3, Method = ''Single sitemap''\<rparr>]"
proof -
  let ?expected = "[\<lparr>Domain = Some ''b.org'', Pages = 2, Method = ''Single sitemap''\<rparr>,
                    \<lparr>Domain = Some ''a.com'', Pages = 3, Method = ''Single sitemap''\<rparr>]"
  have p: "unique_domains urlparse_netloc [''https://a.com'', ''a.com'', ''http://b.org''] =
     Inr [''a.com'', ''b.org'']"
    by code_simp
  have t: "list_all (\<lambda>i. second_first i \<le> 300) [0 ..< length [Some ''a.com'', Some ''b.org'']]"
    by code_simp
  have h: "process_domains_batch two_sites second_first [Some ''a.com'', Some ''b.org''] =
     Inr ?expected"
    by code_simp
  have u: "distinct [Some ''a.com'', Some ''b.org'']"
    by simp
  from batch_one_record_per_domain [OF t, of two_sites]
  obtain results where
    ret: "process_domains_batch two_sites second_first [Some ''a.com'', Some ''b.org''] =
            Inr results"
    and m0: "mset (map Domain results) = mset [Some ''a.com'', Some ''b.org'']"
    and d0: "distinct [Some ''a.com'', Some ''b.org''] \<longrightarrow> distinct (map Domain results)"
    and a0: "list_all (\<lambda>r. 0 \<le> Pages r \<and> returned_method (Method r)) results"
    by (elim exE conjE)
  from ret h have eq: "results = ?expected"
    by (simp only: sum.inject)
  from m0 have m: "mset (map Domain ?expected) = mset [Some ''a.com'', Some ''b.org'']"
    unfolding eq .
  from d0 u have "distinct (map Domain results)"
    by (rule mp)
  then have d: "distinct (map Domain ?expected)"
    unfolding eq .
  from a0 have a: "list_all (\<lambda>r. 0 \<le> Pages r \<and> returned_method (Method r)) ?expected"
    unfolding eq .
  from p t h u m d a show ?thesis
    by (intro conjI)
qed

text \<open>
  The claim as it stands draws every method from the documented labels. Where \<open>a.com\<close>
  answers 404 everywhere, its record carries \<open>No sitemap found\<close>.
\<close>

theorem batch_label_counterexample:
  "process_domains_batch all_not_found prompt [Some ''a.com''] =
     Inr [\<lparr>Domain = Some ''a.com'', Pages = 0, Method = ''No sitemap found''\<rparr>] \<and>
   \<not> documented_method ''No sitemap found''"
  by code_simp

text \<open>
  Claim C1. The specification has the batch return the records completed so far when
  its deadline of 300 seconds passes. In the code the exception of \<open>as_completed\<close> is
  not handled: with \<open>a.com\<close> finished after one second, with a result of three pages, and
  \<open>b.org\<close> not finished after 300, the call raises \<open>TimeoutError\<close> and returns nothing.
\<close>

theorem batch_deadline_raises:
  "map outcome
     (fst (as_completed (submit_all two_sites second_late [Some ''a.com'', Some ''b.org'']) 300)) =
     [Inr (3, ''Single sitemap'')] \<and>
   process_domains_batch two_sites second_late [Some ''a.com'', Some ''b.org''] =
     Inl (TimeoutError [])"
  by code_simp

text \<open>
  Claim C4. The specification has a task that runs for more than 25 seconds recorded
  with the method \<open>Timeout\<close> and a count of 0. In the code \<open>future.result(timeout=25)\<close>
  is called on futures that have already finished: a task that takes 30 seconds is
  waited for, and recorded with its own result.
\<close>

theorem slow_task_not_timed_out:
  "process_domains_batch www_site half_minute [Some ''a.com''] =
     Inr [\<lparr>Domain = Some ''a.com'', Pages = 3, Method = ''Single sitemap''\<rparr>]"
  by code_simp

text \<open>
  The other half of that claim holds: a task that raises is recorded with a count of 0
  and the first 50 characters of the message.
\<close>

lemma task_fault_recorded:
  assumes "outcome f = Inl (OtherException msg)" and "finished_at f \<le> now"
  shows "record_result f now =
           \<lparr>Domain = fut_domain f, Pages = 0, Method = ''Error: '' @ take 50 msg\<rparr>"
  using assms by (simp add: record_result_def future_result_def)

text \<open>
  An exception of a request that the loop over the candidates does not catch leaves
  \<open>get_page_count\<close> after that one request, and the batch records it so.
\<close>

lemma unanticipated_fault_recorded:
  "get_page_count faulty_site (Some ''a.com'') 20 =
     (Inl (OtherException
        ''0123456789012345678901234567890123456789012345678901234567890123456789''),
      [(''https://a.com/sitemap.xml'', 20)]) \<and>
   process_domains_batch faulty_site prompt [Some ''a.com''] =
     Inr [\<lparr>Domain = Some ''a.com'', Pages = 0,
           Method = ''Error: 01234567890123456789012345678901234567890123456789''\<rparr>]"
  by code_simp

end
